theory Spec2Isabelle
  imports Main
begin

section \<open>Python strings\<close>

text \<open>
  Queries, responses and identifiers are Python \<open>str\<close> values.  They are modelled as
  \<open>string\<close> (lists of characters) and read as ASCII text: the SQL keywords, tags and
  risk levels the orchestration layer tests for are all ASCII.  The functions below are
  the \<open>str\<close> methods the source calls, with the behaviour CPython gives them on ASCII.
\<close>

definition isspace :: "char \<Rightarrow> bool" where
  \<comment> \<open>\<open>str.isspace\<close> on one character: tab, LF, VT, FF, CR, FS, GS, RS, US and the blank.\<close>
  "isspace c = (c \<in> set [CHR 0x09, CHR 0x0A, CHR 0x0B, CHR 0x0C, CHR 0x0D,
                           CHR 0x1C, CHR 0x1D, CHR 0x1E, CHR 0x1F, CHR 0x20])"

definition lstrip :: "string \<Rightarrow> string" where
  "lstrip s = dropWhile isspace s"

definition rstrip :: "string \<Rightarrow> string" where
  "rstrip s = rev (dropWhile isspace (rev s))"

definition strip :: "string \<Rightarrow> string" where
  \<comment> \<open>\<open>s.strip()\<close>\<close>
  "strip s = rstrip (lstrip s)"

text \<open>
  \<open>upper\<close> and \<open>lower\<close> change the 26 ASCII letters and nothing else.
\<close>

definition upper_char :: "char \<Rightarrow> char" where
  "upper_char c =
     (case map_of (zip ''abcdefghijklmnopqrstuvwxyz'' ''ABCDEFGHIJKLMNOPQRSTUVWXYZ'') c of
        Some d \<Rightarrow> d
      | None \<Rightarrow> c)"

definition lower_char :: "char \<Rightarrow> char" where
  "lower_char c =
     (case map_of (zip ''ABCDEFGHIJKLMNOPQRSTUVWXYZ'' ''abcdefghijklmnopqrstuvwxyz'') c of
        Some d \<Rightarrow> d
      | None \<Rightarrow> c)"

definition upper :: "string \<Rightarrow> string" where
  \<comment> \<open>\<open>s.upper()\<close>\<close>
  "upper s = map upper_char s"

definition lower :: "string \<Rightarrow> string" where
  \<comment> \<open>\<open>s.lower()\<close>\<close>
  "lower s = map lower_char s"

text \<open>
  \<open>s.split()\<close> with no argument: the maximal runs of non-whitespace characters, in
  order.  \<open>split_from cur s\<close> scans \<open>s\<close> with the (reversed) token under construction
  in \<open>cur\<close>.
\<close>

fun split_from :: "string \<Rightarrow> string \<Rightarrow> string list" where
  "split_from cur [] = (if cur = [] then [] else [rev cur])"
| "split_from cur (c # cs) =
     (if isspace c then (if cur = [] then split_from [] cs else rev cur # split_from [] cs)
      else split_from (c # cur) cs)"

definition split :: "string \<Rightarrow> string list" where
  "split s = split_from [] s"

text \<open>Python's \<open>x or y\<close> on an optional string: \<open>None\<close> and \<open>""\<close> are both falsy.\<close>

definition truthy :: "string option \<Rightarrow> bool" where
  "truthy x = (case x of None \<Rightarrow> False | Some s \<Rightarrow> s \<noteq> [])"

definition py_or :: "string option \<Rightarrow> string \<Rightarrow> string" where
  "py_or x y = (case x of None \<Rightarrow> y | Some s \<Rightarrow> if s = [] then y else s)"

text \<open>
  Exceptions are values: \<open>IndexError\<close> for \<open>xs[0]\<close> on an empty list,
  \<open>UnboundLocalError\<close> for a local read before assignment, and \<open>LLMError msg\<close> for
  whatever the text-generation client raises (\<open>msg\<close> is \<open>str(e)\<close>).
\<close>

datatype py_error = IndexError | UnboundLocalError | LLMError string

definition join :: "string \<Rightarrow> string list \<Rightarrow> string" where
  \<comment> \<open>\<open>sep.join(parts)\<close>\<close>
  "join sep parts = (case parts of [] \<Rightarrow> [] | p # ps \<Rightarrow> foldl (\<lambda>acc q. acc @ sep @ q) p ps)"

definition nl :: string where
  \<comment> \<open>the one-character string \<open>"\n"\<close>\<close>
  "nl = [CHR 0x0A]"

section \<open>Query classification by leading verb\<close>

text \<open>
  \<^verbatim>\<open>
  def _is_destructive(self, sql: Optional[str]) -> bool:
      if not sql:
          return False
      first_word = sql.strip().split()[0].upper()
      return first_word in {"DELETE", "DROP", "TRUNCATE", "UPDATE"}
  \<close>
  A string of whitespace only passes the first test and has no token: \<open>[0]\<close> raises
  \<open>IndexError\<close>.
\<close>

definition is_destructive :: "string option \<Rightarrow> py_error + bool" where
  "is_destructive sql =
     (if \<not> truthy sql then Inr False
      else (case split (strip (the sql)) of
              [] \<Rightarrow> Inl IndexError
            | first_word # _ \<Rightarrow>
                Inr (upper first_word \<in> {''DELETE'', ''DROP'', ''TRUNCATE'', ''UPDATE''})))"

text \<open>
  \<^verbatim>\<open>
  def _infer_risk_level(self, sql: str) -> str:
      if not sql:
          return "LOW"
      first = sql.strip().split()[0].upper()
      if first in ("DELETE", "DROP", "TRUNCATE"):
          return "HIGH"
      if first in ("UPDATE", "INSERT", "ALTER", "CREATE"):
          return "MEDIUM"
      return "LOW"
  \<close>
\<close>

definition infer_risk_level :: "string \<Rightarrow> py_error + string" where
  "infer_risk_level sql =
     (if sql = [] then Inr ''LOW''
      else (case split (strip sql) of
              [] \<Rightarrow> Inl IndexError
            | w # _ \<Rightarrow>
                (let first = upper w in
                 if first \<in> {''DELETE'', ''DROP'', ''TRUNCATE''} then Inr ''HIGH''
                 else if first \<in> {''UPDATE'', ''INSERT'', ''ALTER'', ''CREATE''} then Inr ''MEDIUM''
                 else Inr ''LOW'')))"

text \<open>
  The leading verb of a query, as the specification words it: the first
  whitespace-separated token, uppercased (empty when the text has no token).
\<close>

definition leading_verb :: "string \<Rightarrow> string" where
  "leading_verb s = upper (takeWhile (\<lambda>c. \<not> isspace c) (dropWhile isspace s))"

section \<open>Constants\<close>

definition MAX_HEAL_ATTEMPTS :: nat where
  "MAX_HEAL_ATTEMPTS = 3"

definition OPTIMIZER_ENABLED :: bool where
  "OPTIMIZER_ENABLED = False"

definition RECENT_MESSAGES_COUNT :: nat where
  "RECENT_MESSAGES_COUNT = 40"

section \<open>Data model\<close>

datatype agent_intent =
    SHOW_DATABASES | SWITCH_DATABASE | SELECT_QUERY | INSERT_DATA | UPDATE_DATA | DELETE_DATA
  | CREATE_TABLE | DROP_TABLE | ALTER_TABLE | DESCRIBE_TABLE | SHOW_TABLES | HELP
  | EXPLAIN_SCHEMA | GENERAL_QUESTION | EXECUTE_QUERY | UNKNOWN

text \<open>
  Field names carry a prefix per class (\<open>qr_\<close> for \<open>QueryResult\<close>, \<open>ha_\<close> for
  \<open>HealAttempt\<close>, \<open>rep_\<close> for \<open>OptimizerReport\<close>, \<open>resp_\<close> for \<open>AgentResponse\<close>,
  \<open>msg_\<close> for \<open>ChatMessage\<close>), because several classes share field names.  Of
  \<open>QueryResult\<close> the fields the orchestration reads are kept; of \<open>AgentResponse\<close> the
  display text, confidence and metadata are left out.
\<close>

record query_result =
  qr_success :: bool
  qr_query :: string
  qr_error :: "string option"
  qr_execution_ms :: int

record heal_attempt =
  ha_attempt_no :: nat
  ha_original_sql :: string
  ha_error_message :: string
  ha_corrected_sql :: string
  ha_success :: bool
  ha_execution_ms :: int

record optimizer_report =
  rep_original_sql :: string
  rep_optimized_sql :: string
  rep_final_sql :: string
  rep_optimizer_notes :: string
  rep_validator_notes :: string
  rep_risk_level :: string
  rep_was_modified :: bool

record agent_response =
  resp_sql_query :: "string option"
  resp_intent :: agent_intent
  resp_auto_execute :: bool
  resp_requires_confirmation :: bool
  resp_error :: "string option"
  resp_optimizer_report :: "optimizer_report option"

record chat_message =
  msg_role :: string
  msg_content :: string
  msg_thread_id :: string
  msg_sql_query :: "string option"
  msg_sequence_no :: int

text \<open>The fields of \<open>DBMAAgent\<close> that the modelled methods read.\<close>

record agent_state =
  current_database :: "string option"
  current_thread_id :: "string option"
  schema_context :: string

section \<open>External collaborators\<close>

text \<open>
  The relational engine and the text-generation oracle are outside the program.  Both are
  functions of an explicit world state \<open>'w\<close>, so that the same query or prompt may be
  answered differently at different times.  A prompt is kept as the template's name with
  the values formatted into it.  \<open>llm_invoke\<close> returns \<open>Inl msg\<close> when the client raises.

  \<open>classify_intent\<close> stands for the regular-expression table of that name (the
  specification treats the classifier as an external pure function) and \<open>use_match\<close> for
  group 1 of the database-switch expression in \<open>_handle_quick_intents\<close>: every theorem
  below holds whatever the two compute.
\<close>

datatype prompt =
    Healer_prompt string string string string
  | Optimizer_prompt string string string
  | Validator_prompt string string string
  | Summarizer_prompt string
  | Chat_prompt string string string "(string \<times> string) list" string

record 'w env =
  execute_query :: "string \<Rightarrow> 'w \<Rightarrow> query_result \<times> 'w"
  llm_invoke :: "prompt \<Rightarrow> 'w \<Rightarrow> (string + string) \<times> 'w"
  classify_intent :: "string \<Rightarrow> agent_intent"
  use_match :: "string \<Rightarrow> string option"

section \<open>Extracting a query from oracle text\<close>

text \<open>
  \<open>DBMAAgent._extract_sql\<close>.  The three \<open>re.sub\<close> calls first remove think blocks
  (tags in any letter case), then everything from an unclosed \<open><think>\<close> to the end,
  then stray tags.  Four patterns follow, the first that yields a query wins:
  \<^enum> the text between the first \<open>```sql\<close> (any letter case) and the next \<open>```\<close>,
    stripped, when it is not empty;
  \<^enum> the text between the first \<open>```\<close> and the next one, stripped, when it starts with
    an SQL keyword at a word boundary;
  \<^enum> from the first keyword that starts the text or a line, up to the first blank line,
    the first line feed followed by a letter or \<open>*\<close>, or the end (\<open>$\<close> also matches
    before a final line feed), stripped, when it has at least two tokens; a \<open>;\<close> is
    appended when missing;
  \<^enum> the first line, stripped, that starts with a keyword and has at least two tokens,
    with \<open>;\<close> appended when missing.
\<close>

fun ci_prefix :: "string \<Rightarrow> string \<Rightarrow> bool" where
  \<comment> \<open>\<open>pat\<close> matches at the head of the text, letters compared without case\<close>
  "ci_prefix [] s = True"
| "ci_prefix (p # ps) [] = False"
| "ci_prefix (p # ps) (c # cs) = (if lower_char p = lower_char c then ci_prefix ps cs else False)"

fun skip_past_ci :: "string \<Rightarrow> string \<Rightarrow> string option" where
  \<comment> \<open>the text after the first place where \<open>pat\<close> matches, if there is one\<close>
  "skip_past_ci pat [] = (if pat = [] then Some [] else None)"
| "skip_past_ci pat (c # cs) =
     (if ci_prefix pat (c # cs) then Some (drop (length pat) (c # cs)) else skip_past_ci pat cs)"

function sub_think_blocks :: "string \<Rightarrow> string" where
  \<comment> \<open>\<open>re.sub(r"<think>[\s\S]*?</think>", "", s, flags=re.IGNORECASE)\<close>\<close>
  "sub_think_blocks [] = []"
| "sub_think_blocks (c # cs) =
     (if ci_prefix ''<think>'' (c # cs) then
        (case skip_past_ci ''</think>'' (drop 7 (c # cs)) of
           Some rest \<Rightarrow> sub_think_blocks rest
         | None \<Rightarrow> c # sub_think_blocks cs)
      else c # sub_think_blocks cs)"
  by pat_completeness auto
termination
proof (relation "measure length")
  show "wf (measure length)" by simp
next
  fix c :: char and cs :: string
  show "(cs, c # cs) \<in> measure length" by simp
next
  fix c :: char and cs rest :: string
  assume found: "skip_past_ci ''</think>'' (drop 7 (c # cs)) = Some rest"
  have shorter: "length r \<le> length s" if "skip_past_ci pat s = Some r" for pat s r
    using that by (induction s) (auto split: if_splits)
  from shorter [OF found] show "(rest, c # cs) \<in> measure length" by simp
next
  fix c :: char and cs :: string
  show "(cs, c # cs) \<in> measure length" by simp
qed

fun cut_open_think :: "string \<Rightarrow> string" where
  \<comment> \<open>\<open>re.sub(r"<think>[\s\S]*$", "", s, flags=re.IGNORECASE)\<close>\<close>
  "cut_open_think [] = []"
| "cut_open_think (c # cs) = (if ci_prefix ''<think>'' (c # cs) then [] else c # cut_open_think cs)"

function sub_think_tags :: "string \<Rightarrow> string" where
  \<comment> \<open>\<open>re.sub(r"</?think>", "", s, flags=re.IGNORECASE)\<close>\<close>
  "sub_think_tags [] = []"
| "sub_think_tags (c # cs) =
     (if ci_prefix ''<think>'' (c # cs) then sub_think_tags (drop 6 cs)
      else if ci_prefix ''</think>'' (c # cs) then sub_think_tags (drop 7 cs)
      else c # sub_think_tags cs)"
  by pat_completeness auto
termination
  by (relation "measure length") auto

definition SQL_KEYWORDS :: "string list" where
  "SQL_KEYWORDS =
     [''SELECT'', ''INSERT'', ''UPDATE'', ''DELETE'', ''CREATE'', ''DROP'', ''ALTER'', ''SHOW'',
      ''DESCRIBE'', ''DESC'', ''USE'', ''TRUNCATE'', ''CALL'', ''GRANT'', ''REVOKE'', ''EXPLAIN'']"

definition is_letter :: "char \<Rightarrow> bool" where
  "is_letter c = (c \<in> set ''abcdefghijklmnopqrstuvwxyzABCDEFGHIJKLMNOPQRSTUVWXYZ'')"

definition is_word_char :: "char \<Rightarrow> bool" where
  "is_word_char c = (is_letter c \<or> c \<in> set ''0123456789_'')"

definition starts_with_keyword :: "string \<Rightarrow> bool" where
  \<comment> \<open>\<open>re.match(rf"^({SQL_KEYWORDS})\b", s, re.IGNORECASE)\<close>: a keyword, then no word character\<close>
  "starts_with_keyword s =
     list_ex (\<lambda>k. ci_prefix k s \<and>
                   (case drop (length k) s of [] \<Rightarrow> True | d # _ \<Rightarrow> \<not> is_word_char d))
       SQL_KEYWORDS"

fun before_first :: "string \<Rightarrow> string \<Rightarrow> string option" where
  \<comment> \<open>the text before the first occurrence of \<open>pat\<close>, if there is one\<close>
  "before_first pat [] = (if pat = [] then Some [] else None)"
| "before_first pat (c # cs) =
     (if take (length pat) (c # cs) = pat then Some []
      else map_option ((#) c) (before_first pat cs))"

definition fenced_block :: "string \<Rightarrow> string \<Rightarrow> string option" where
  \<comment> \<open>group 1 of \<open>opening\s*(.*?)\s*```\<close>, stripped; \<open>None\<close> when there is no match\<close>
  "fenced_block opening s =
     (case skip_past_ci opening s of
        None \<Rightarrow> None
      | Some rest \<Rightarrow> map_option strip (before_first ''```'' rest))"

definition at_terminator :: "string \<Rightarrow> bool" where
  \<comment> \<open>\<open>(?:\n\n|\n[A-Z*]|$)\<close> under \<open>re.IGNORECASE\<close> matches here\<close>
  "at_terminator s =
     (case s of
        [] \<Rightarrow> True
      | c # r \<Rightarrow> c = CHR 0x0A \<and>
          (case r of [] \<Rightarrow> True | d # _ \<Rightarrow> d = CHR 0x0A \<or> is_letter d \<or> d = CHR ''*''))"

fun upto_terminator :: "string \<Rightarrow> string" where
  "upto_terminator [] = []"
| "upto_terminator (c # cs) = (if at_terminator (c # cs) then [] else c # upto_terminator cs)"

fun first_statement :: "bool \<Rightarrow> string \<Rightarrow> string option" where
  \<comment> \<open>group 1 of pattern 3: the leftmost keyword at the start of the text or of a line\<close>
  "first_statement at_line_start [] = None"
| "first_statement at_line_start (c # cs) =
     (if at_line_start \<and> starts_with_keyword (c # cs) then Some (upto_terminator (c # cs))
      else first_statement (c = CHR 0x0A) cs)"

fun splitlines_from :: "string \<Rightarrow> string \<Rightarrow> string list" where
  \<comment> \<open>\<open>s.splitlines()\<close>: LF, CR, CR LF, VT, FF, FS, GS and RS end a line\<close>
  "splitlines_from cur [] = (if cur = [] then [] else [rev cur])"
| "splitlines_from cur [c] =
     (if c \<in> set [CHR 0x0A, CHR 0x0D, CHR 0x0B, CHR 0x0C, CHR 0x1C, CHR 0x1D, CHR 0x1E]
      then [rev cur] else [rev (c # cur)])"
| "splitlines_from cur (c # d # ds) =
     (if c = CHR 0x0D \<and> d = CHR 0x0A then rev cur # splitlines_from [] ds
      else if c \<in> set [CHR 0x0A, CHR 0x0D, CHR 0x0B, CHR 0x0C, CHR 0x1C, CHR 0x1D, CHR 0x1E]
      then rev cur # splitlines_from [] (d # ds)
      else splitlines_from (c # cur) (d # ds))"

definition splitlines :: "string \<Rightarrow> string list" where
  "splitlines s = splitlines_from [] s"

definition with_semicolon :: "string \<Rightarrow> string" where
  "with_semicolon s = (if s \<noteq> [] \<and> last s = CHR '';'' then s else s @ '';'')"

text \<open>
  Patterns 3 and 4 stop at the first match of their expression, as \<open>re.search\<close> and the
  \<open>for\<close> loop with its \<open>return\<close> do.
\<close>

definition extract_sql :: "string \<Rightarrow> string option" where
  "extract_sql llm_response =
     (let txt = sub_think_tags (cut_open_think (sub_think_blocks llm_response));
          m1 = fenced_block ''```sql'' txt
      in if truthy m1 then m1
         else
           (let m2 = fenced_block ''```'' txt in
            if m2 \<noteq> None \<and> starts_with_keyword (the m2) then m2
            else
              (let m3 = map_option strip (first_statement True txt) in
               if m3 \<noteq> None \<and> length (split (the m3)) \<ge> 2 then map_option with_semicolon m3
               else
                 (case filter (\<lambda>line. starts_with_keyword line \<and> length (split line) \<ge> 2)
                         (map strip (splitlines txt)) of
                    [] \<Rightarrow> None
                  | line # _ \<Rightarrow> Some (with_semicolon line)))))"

section \<open>Self-healing execution loop\<close>

text \<open>
  The events of one execution request, in order: each engine call with the query sent and
  the result received; each healer call with the failing query, the error text, the
  correction returned and the length the heal log had when the oracle was asked.  The
  trace is bookkeeping of the model (the source keeps none); the statements about
  engine calls and about what the oracle answered are made on it.
\<close>

datatype event =
    Engine_call string query_result
  | Healer_call string string "string option" nat

definition is_engine_call :: "event \<Rightarrow> bool" where
  "is_engine_call e = (case e of Engine_call _ _ \<Rightarrow> True | Healer_call _ _ _ _ \<Rightarrow> False)"

definition engine_outcomes :: "event list \<Rightarrow> bool list" where
  \<comment> \<open>the success flags of the engine calls, in order\<close>
  "engine_outcomes evs =
     concat (map (\<lambda>e. case e of Engine_call _ r \<Rightarrow> [qr_success r] | Healer_call _ _ _ _ \<Rightarrow> []) evs)"

definition noop_correction :: "string option \<Rightarrow> string \<Rightarrow> bool" where
  \<comment> \<open>no text, or text equal after trimming to the query that just failed\<close>
  "noop_correction c q = (case c of None \<Rightarrow> True | Some t \<Rightarrow> t = [] \<or> strip t = strip q)"

definition corrections_fresh :: "event list \<Rightarrow> bool" where
  \<comment> \<open>every correction the oracle gave was non-empty and differed, after trimming, from the query it corrected\<close>
  "corrections_fresh evs =
     list_all (\<lambda>e. case e of Engine_call _ _ \<Rightarrow> True
                       | Healer_call q _ c _ \<Rightarrow> \<not> noop_correction c q) evs"

text \<open>
  \<open>_heal_sql\<close>: one oracle call on the healer prompt, then \<open>_extract_sql\<close> on the
  response; \<open>None\<close> when the call raises.
\<close>

definition heal_sql :: "'w env \<Rightarrow> agent_state \<Rightarrow> string \<Rightarrow> string \<Rightarrow> 'w \<Rightarrow> string option \<times> 'w" where
  "heal_sql E ag failed_sql error_message w =
     (case llm_invoke E (Healer_prompt (py_or (current_database ag) ''unknown'')
                           (take 2000 (schema_context ag)) failed_sql error_message) w of
        (Inl _, w') \<Rightarrow> (None, w')
      | (Inr healer_response, w') \<Rightarrow> (extract_sql healer_response, w'))"

text \<open>
  The body of \<open>for attempt in range(MAX_HEAL_ATTEMPTS + 1)\<close>, by recursion on the list
  of remaining attempt numbers.  \<open>result\<close> is the local of that name (\<open>None\<close> before the
  first assignment); the first equation is the \<open>return result, heal_log\<close> after the loop.
  Logging and the optional \<open>on_attempt_callback\<close>, which only report progress, are left
  out.
\<close>

fun heal_loop ::
  "'w env \<Rightarrow> agent_state \<Rightarrow> nat list \<Rightarrow> query_result option \<Rightarrow> string \<Rightarrow> heal_attempt list \<Rightarrow> 'w
   \<Rightarrow> (py_error + query_result \<times> heal_attempt list) \<times> event list \<times> 'w" where
  "heal_loop E ag [] result current_sql heal_log w =
     ((case result of None \<Rightarrow> Inl UnboundLocalError | Some r \<Rightarrow> Inr (r, heal_log)), [], w)"
| "heal_loop E ag (attempt # rest) result current_sql heal_log w =
     (case execute_query E current_sql w of (res, w1) \<Rightarrow>
        if qr_success res then
          (if attempt > 0 then
             (case heal_log of
                [] \<Rightarrow> (Inl IndexError, [Engine_call current_sql res], w1)
              | _ # _ \<Rightarrow>
                  (Inr (res, butlast heal_log @
                          [(last heal_log)\<lparr>ha_success := True, ha_execution_ms := qr_execution_ms res\<rparr>]),
                   [Engine_call current_sql res], w1))
           else (Inr (res, heal_log), [Engine_call current_sql res], w1))
        else
          (let error_msg = py_or (qr_error res) ''Unknown error'' in
           if attempt = MAX_HEAL_ATTEMPTS then
             (Inr (res, heal_log), [Engine_call current_sql res], w1)
           else
             (case heal_sql E ag current_sql error_msg w1 of (corrected_sql, w2) \<Rightarrow>
                if \<not> truthy corrected_sql \<or> strip (the corrected_sql) = strip current_sql then
                  (Inr (res, heal_log),
                   [Engine_call current_sql res,
                    Healer_call current_sql error_msg corrected_sql (length heal_log)], w2)
                else
                  (case heal_loop E ag rest (Some res) (the corrected_sql)
                          (heal_log @
                             [\<lparr>ha_attempt_no = attempt + 1, ha_original_sql = current_sql,
                               ha_error_message = error_msg, ha_corrected_sql = the corrected_sql,
                               ha_success = False, ha_execution_ms = 0\<rparr>]) w2 of
                     (out, evs, w3) \<Rightarrow>
                       (out, Engine_call current_sql res
                               # Healer_call current_sql error_msg corrected_sql (length heal_log) # evs, w3)))))"

definition execute_with_healing ::
  "'w env \<Rightarrow> agent_state \<Rightarrow> string \<Rightarrow> 'w
   \<Rightarrow> (py_error + query_result \<times> heal_attempt list) \<times> event list \<times> 'w" where
  "execute_with_healing E ag sql w =
     (if \<not> truthy (current_database ag) then
        (Inr (\<lparr>qr_success = False, qr_query = sql, qr_error = Some ''No database selected'',
                qr_execution_ms = 0\<rparr>, []), [], w)
      else heal_loop E ag [0 ..< MAX_HEAL_ATTEMPTS + 1] None sql [] w)"

text \<open>What a caller of \<open>execute_with_healing\<close> observes, and the trace beside it.\<close>

definition returned_result ::
  "(py_error + query_result \<times> heal_attempt list) \<times> event list \<times> 'w \<Rightarrow> query_result option" where
  "returned_result out = (case fst out of Inl _ \<Rightarrow> None | Inr (r, _) \<Rightarrow> Some r)"

definition returned_log ::
  "(py_error + query_result \<times> heal_attempt list) \<times> event list \<times> 'w \<Rightarrow> heal_attempt list option" where
  "returned_log out = (case fst out of Inl _ \<Rightarrow> None | Inr (_, hl) \<Rightarrow> Some hl)"

definition events ::
  "(py_error + query_result \<times> heal_attempt list) \<times> event list \<times> 'w \<Rightarrow> event list" where
  "events out = fst (snd out)"

text \<open>The entry the loop appends after an accepted correction, named for the proofs.\<close>

definition next_entry :: "nat \<Rightarrow> string \<Rightarrow> string \<Rightarrow> string option \<Rightarrow> heal_attempt" where
  "next_entry a cur err c =
     \<lparr>ha_attempt_no = a + 1, ha_original_sql = cur, ha_error_message = err,
      ha_corrected_sql = the c, ha_success = False, ha_execution_ms = 0\<rparr>"

section \<open>Durable conversation store\<close>

text \<open>
  The PostgreSQL tables \<open>PersistenceManager\<close> reads and writes: sessions and summaries
  are keyed by thread id (the summary table has \<open>thread_id UNIQUE\<close>), messages are rows.
  Every method of \<open>PersistenceManager\<close> wraps its statement in \<open>try\<close>/\<open>except\<close> and
  returns a default when the statement fails; \<open>up c\<close> says whether the statement of
  call \<open>c\<close> succeeds.
\<close>

record session_row =
  mysql_db_name :: string
  mysql_host :: string
  mysql_user :: string
  last_active_at :: nat

record summary_row =
  summary_text :: string
  summarized_up_to_seq :: int
  message_count_summarized :: int

record store =
  dbma_sessions :: "string \<rightharpoonup> session_row"
  dbma_messages :: "chat_message list"
  dbma_conversation_summary :: "string \<rightharpoonup> summary_row"

datatype store_call =
  Upsert_session | Load_summary | Save_summary | Messages_after_seq | Recent_messages

record mysql_config =
  cfg_host :: string
  cfg_user :: string

subsection \<open>Session registry\<close>

text \<open>
  \<^verbatim>\<open>
  raw = f"{host}::{user}::{database}"
  hash_val = hashlib.sha256(raw.encode()).hexdigest()[:32]
  return f"thread_{hash_val}"
  \<close>
  \<open>sha256_hexdigest\<close> stands for \<open>hashlib.sha256(raw.encode()).hexdigest()\<close> of the
  standard library, a function of the text.
\<close>

definition generate_thread_id :: "(string \<Rightarrow> string) \<Rightarrow> string \<Rightarrow> string \<Rightarrow> string \<Rightarrow> string" where
  "generate_thread_id sha256_hexdigest host user database =
     (let raw = host @ ''::'' @ user @ ''::'' @ database;
          hash_val = take 32 (sha256_hexdigest raw)
      in ''thread_'' @ hash_val)"

text \<open>
  \<open>get_or_create_session\<close>: the identifier is computed first; the upsert inserts the
  session row or, on conflict, touches \<open>last_active_at\<close>; the identifier is returned on
  both paths (\<open>return thread_id  # return even on error\<close>).
\<close>

definition get_or_create_session ::
  "(string \<Rightarrow> string) \<Rightarrow> mysql_config \<Rightarrow> (store_call \<Rightarrow> bool) \<Rightarrow> nat \<Rightarrow>
   string \<Rightarrow> string option \<Rightarrow> string option \<Rightarrow> store \<Rightarrow> string \<times> store" where
  "get_or_create_session sha256_hexdigest cfg up now database_name host user st =
     (let h = py_or host (cfg_host cfg);
          u = py_or user (cfg_user cfg);
          tid = generate_thread_id sha256_hexdigest h u database_name
      in if up Upsert_session then
           (tid, st\<lparr>dbma_sessions := (dbma_sessions st)(tid \<mapsto>
                     (case dbma_sessions st tid of
                        None \<Rightarrow> \<lparr>mysql_db_name = database_name, mysql_host = h, mysql_user = u,
                                  last_active_at = now\<rparr>
                      | Some row \<Rightarrow> row\<lparr>last_active_at := now\<rparr>))\<rparr>)
         else (tid, st))"

subsection \<open>Messages and summaries\<close>

definition get_recent_messages ::
  "(store_call \<Rightarrow> bool) \<Rightarrow> store \<Rightarrow> string \<Rightarrow> nat \<Rightarrow> chat_message list" where
  \<comment> \<open>\<open>ORDER BY sequence_no DESC LIMIT n\<close>, re-sorted \<open>ASC\<close>\<close>
  "get_recent_messages up st tid n =
     (if up Recent_messages then
        sort_key msg_sequence_no
          (take n (rev (sort_key msg_sequence_no
                          (filter (\<lambda>m. msg_thread_id m = tid) (dbma_messages st)))))
      else [])"

definition get_messages_after_seq ::
  "(store_call \<Rightarrow> bool) \<Rightarrow> store \<Rightarrow> string \<Rightarrow> int \<Rightarrow> chat_message list" where
  \<comment> \<open>\<open>WHERE thread_id = %s AND sequence_no > %s ORDER BY sequence_no ASC\<close>\<close>
  "get_messages_after_seq up st tid after_seq =
     (if up Messages_after_seq then
        sort_key msg_sequence_no
          (filter (\<lambda>m. msg_thread_id m = tid \<and> msg_sequence_no m > after_seq) (dbma_messages st))
      else [])"

definition load_conversation_summary ::
  "(store_call \<Rightarrow> bool) \<Rightarrow> store \<Rightarrow> string \<Rightarrow> summary_row option" where
  "load_conversation_summary up st tid =
     (if up Load_summary then dbma_conversation_summary st tid else None)"

definition save_conversation_summary ::
  "(store_call \<Rightarrow> bool) \<Rightarrow> store \<Rightarrow> string \<Rightarrow> string \<Rightarrow> int \<Rightarrow> int \<Rightarrow> bool \<times> store" where
  \<comment> \<open>\<open>INSERT ... ON CONFLICT (thread_id) DO UPDATE\<close>: the row is replaced\<close>
  "save_conversation_summary up st tid new_text up_to_seq n_summarized =
     (if up Save_summary then
        (True, st\<lparr>dbma_conversation_summary := (dbma_conversation_summary st)(tid \<mapsto>
                     \<lparr>summary_text = new_text, summarized_up_to_seq = up_to_seq,
                      message_count_summarized = n_summarized\<rparr>)\<rparr>)
      else (False, st))"

definition ROLE_MAP :: "string \<rightharpoonup> string" where
  "ROLE_MAP = map_of [(''human'', ''user''), (''user'', ''user''), (''assistant'', ''assistant'')]"

definition format_history_for_llm :: "chat_message list \<Rightarrow> bool \<Rightarrow> (string \<times> string) list" where
  "format_history_for_llm messages include_sql =
     concat (map (\<lambda>msg.
        let role = (case ROLE_MAP (msg_role msg) of Some r \<Rightarrow> r | None \<Rightarrow> ''user'');
            content = (if include_sql \<and> truthy (msg_sql_query msg) \<and> role = ''assistant''
                       then msg_content msg @ nl @ nl @ ''Generated SQL:'' @ nl @ ''```sql'' @ nl
                            @ the (msg_sql_query msg) @ nl @ ''```''
                       else msg_content msg)
        in if strip content \<noteq> [] then [(role, content)] else []) messages)"

section \<open>Rolling memory manager\<close>

record context_block =
  ctx_summary :: string
  ctx_recent_formatted :: "(string \<times> string) list"

text \<open>
  \<open>_build_rolling_context\<close>.  \<open>fault\<close> stands for an exception escaping the \<open>try\<close>
  block, which sends control to the \<open>except\<close> handler.
\<close>

definition build_rolling_context ::
  "(store_call \<Rightarrow> bool) \<Rightarrow> bool \<Rightarrow> store \<Rightarrow> string \<Rightarrow> context_block" where
  "build_rolling_context up fault st tid =
     (if fault then
        \<lparr>ctx_summary = [],
         ctx_recent_formatted =
           format_history_for_llm (get_recent_messages up st tid RECENT_MESSAGES_COUNT) True\<rparr>
      else
        (let existing = load_conversation_summary up st tid;
             summary = (case existing of Some ex \<Rightarrow> summary_text ex | None \<Rightarrow> []);
             unsummarized =
               (case existing of
                  Some ex \<Rightarrow> get_messages_after_seq up st tid (summarized_up_to_seq ex)
                | None \<Rightarrow> get_recent_messages up st tid RECENT_MESSAGES_COUNT);
             to_keep = (if length unsummarized > RECENT_MESSAGES_COUNT
                        then drop (length unsummarized - RECENT_MESSAGES_COUNT) unsummarized
                        else unsummarized)
         in \<lparr>ctx_summary = summary,
             ctx_recent_formatted = format_history_for_llm to_keep True\<rparr>))"

text \<open>
  \<open>re.sub(r"<think>.*?</think>", "", result, flags=re.DOTALL)\<close>: scanning from the left,
  each \<open><think>\<close> that has a \<open></think>\<close> after it is removed together with everything up
  to the first such \<open></think>\<close>.
\<close>

fun skip_past :: "string \<Rightarrow> string \<Rightarrow> string option" where
  "skip_past pat [] = (if pat = [] then Some [] else None)"
| "skip_past pat (c # cs) =
     (if take (length pat) (c # cs) = pat then Some (drop (length pat) (c # cs))
      else skip_past pat cs)"

function sub_think :: "string \<Rightarrow> string" where
  "sub_think [] = []"
| "sub_think (c # cs) =
     (if take 7 (c # cs) = ''<think>'' then
        (case skip_past ''</think>'' (drop 7 (c # cs)) of
           Some rest \<Rightarrow> sub_think rest
         | None \<Rightarrow> c # sub_think cs)
      else c # sub_think cs)"
  by pat_completeness auto
termination
proof (relation "measure length")
  show "wf (measure length)" by simp
next
  fix c :: char and cs :: string
  show "(cs, c # cs) \<in> measure length" by simp
next
  fix c :: char and cs rest :: string
  assume found: "skip_past ''</think>'' (drop 7 (c # cs)) = Some rest"
  have shorter: "length r \<le> length s" if "skip_past pat s = Some r" for pat s r
    using that by (induction s) (auto split: if_splits)
  from shorter [OF found] show "(rest, c # cs) \<in> measure length" by simp
next
  fix c :: char and cs :: string
  show "(cs, c # cs) \<in> measure length" by simp
qed

text \<open>
  \<open>_summarize_messages\<close>: the transcript is built, the oracle is asked once, think
  blocks and surrounding whitespace are removed; when the oracle raises or nothing is
  left, the existing summary is returned.
\<close>

definition summarize_messages ::
  "'w env \<Rightarrow> string \<Rightarrow> chat_message list \<Rightarrow> 'w \<Rightarrow> string \<times> 'w" where
  "summarize_messages E existing_summary new_messages w =
     (let lines =
            (if existing_summary \<noteq> [] then
               [''=== EXISTING SUMMARY (keep all facts from here) ==='', existing_summary,
                nl @ ''=== NEW MESSAGES TO ADD TO SUMMARY ===''] else [])
            @ concat (map (\<lambda>msg.
                let role = (if msg_role msg \<in> {''human'', ''user''} then ''User'' else ''DBMA'');
                    body = strip (msg_content msg);
                    body = (if truthy (msg_sql_query msg)
                            then body @ nl @ ''[SQL: '' @ strip (the (msg_sql_query msg)) @ '']''
                            else body)
                in if body \<noteq> [] then [role @ '': '' @ body] else []) new_messages);
          messages_text = join nl lines
      in case llm_invoke E (Summarizer_prompt messages_text) w of
           (Inl _, w') \<Rightarrow> (existing_summary, w')
         | (Inr result, w') \<Rightarrow>
             (let result = strip (sub_think result)
              in (if result \<noteq> [] then result else existing_summary, w')))"

text \<open>
  \<open>update_summary_if_needed\<close> (the fold).  Nothing in the \<open>try\<close> block raises:
  \<open>to_fold\<close> is non-empty where \<open>to_fold[-1]\<close> is read, and the collaborators' failures
  are absorbed by the methods called.
\<close>

definition update_summary_if_needed ::
  "'w env \<Rightarrow> (store_call \<Rightarrow> bool) \<Rightarrow> string \<Rightarrow> store \<Rightarrow> 'w \<Rightarrow> store \<times> 'w" where
  "update_summary_if_needed E up tid st w =
     (let existing = load_conversation_summary up st tid;
          last_seq = (case existing of Some ex \<Rightarrow> summarized_up_to_seq ex | None \<Rightarrow> 0);
          unsummarized = get_messages_after_seq up st tid last_seq
      in if length unsummarized \<le> RECENT_MESSAGES_COUNT then (st, w)
         else
           (let to_fold = take (length unsummarized - RECENT_MESSAGES_COUNT) unsummarized in
            case summarize_messages E
                   (case existing of Some ex \<Rightarrow> summary_text ex | None \<Rightarrow> []) to_fold w of
              (new_text, w') \<Rightarrow>
                (snd (save_conversation_summary up st tid new_text
                        (msg_sequence_no (last to_fold))
                        ((case existing of Some ex \<Rightarrow> message_count_summarized ex | None \<Rightarrow> 0)
                         + int (length to_fold))), w')))"



section \<open>Refinement pipeline\<close>

text \<open>
  \<^verbatim>\<open>
  def _extract_tagged_line(self, text, tag):
      m = re.search(rf"{tag}\s*:\s*(.+)", text, re.IGNORECASE)
      return m.group(1).strip() if m else None
  \<close>
  \<open>match_tagged tag s\<close> is group 1 of a match starting at the head of \<open>s\<close>: the tag in
  any letter case, whitespace, a colon, whitespace, then one or more characters up to the
  end of the line.  When nothing but whitespace follows the colon, the greedy \<open>\s*\<close>
  gives characters back until \<open>(.+)\<close> can start on one that is not a line feed:
  group 1 is then the last such whitespace character.  \<open>re_search_tagged\<close> takes the
  leftmost position where a match starts.
\<close>

definition match_tagged :: "string \<Rightarrow> string \<Rightarrow> string option" where
  "match_tagged tag s =
     (if length tag \<le> length s \<and> lower (take (length tag) s) = lower tag then
        (case dropWhile isspace (drop (length tag) s) of
           [] \<Rightarrow> None
         | c # r \<Rightarrow>
             if c = CHR '':'' then
               (if dropWhile isspace r \<noteq> [] then
                  Some (takeWhile (\<lambda>d. d \<noteq> CHR 0x0A) (dropWhile isspace r))
                else
                  (case dropWhile (\<lambda>d. d = CHR 0x0A) (rev r) of
                     [] \<Rightarrow> None
                   | d # _ \<Rightarrow> Some [d]))
             else None)
      else None)"

fun re_search_tagged :: "string \<Rightarrow> string \<Rightarrow> string option" where
  "re_search_tagged tag [] = match_tagged tag []"
| "re_search_tagged tag (c # cs) =
     (case match_tagged tag (c # cs) of
        Some g \<Rightarrow> Some g
      | None \<Rightarrow> re_search_tagged tag cs)"

definition extract_tagged_line :: "string \<Rightarrow> string \<Rightarrow> string option" where
  "extract_tagged_line response tag = map_option strip (re_search_tagged tag response)"

text \<open>\<open>_invoke_sub_agent\<close>: one oracle call; what the client raises is raised again.\<close>

definition invoke_sub_agent :: "'w env \<Rightarrow> string \<Rightarrow> prompt \<Rightarrow> 'w \<Rightarrow> (py_error + string) \<times> 'w" where
  "invoke_sub_agent E agent_name p w =
     (case llm_invoke E p w of
        (Inl msg, w') \<Rightarrow> (Inl (LLMError msg), w')
      | (Inr response, w') \<Rightarrow> (Inr response, w'))"

text \<open>
  \<open>_run_optimizer_pipeline\<close>.  \<open>x or y\<close> evaluates \<open>y\<close> only when \<open>x\<close> is falsy, so
  \<open>_infer_risk_level\<close> can raise only where it is reached.  (The default validator note
  has a dash outside ASCII in the source; a hyphen stands for it.)
\<close>

definition run_optimizer_pipeline ::
  "'w env \<Rightarrow> agent_state \<Rightarrow> string \<Rightarrow> 'w \<Rightarrow> (py_error + optimizer_report) \<times> 'w" where
  "run_optimizer_pipeline E ag original_sql w =
     (let db = py_or (current_database ag) ''unknown'';
          sch = take 1500 (schema_context ag)
      in case invoke_sub_agent E ''DBMA-Optimizer'' (Optimizer_prompt db sch original_sql) w of
           (Inl err, w1) \<Rightarrow> (Inl err, w1)
         | (Inr optimizer_response, w1) \<Rightarrow>
             (let optimized_sql = py_or (extract_sql optimizer_response) original_sql;
                  optimizer_notes = py_or (extract_tagged_line optimizer_response ''OPTIMIZER_NOTES'')
                                      ''No changes needed''
              in case invoke_sub_agent E ''DBMA-Validator'' (Validator_prompt db sch optimized_sql) w1 of
                   (Inl err, w2) \<Rightarrow> (Inl err, w2)
                 | (Inr validator_response, w2) \<Rightarrow>
                     (let final_sql = py_or (extract_sql validator_response) optimized_sql;
                          validator_notes =
                            py_or (extract_tagged_line validator_response ''VALIDATOR_NOTES'')
                              ''Validated - no issues found'';
                          tagged_risk = extract_tagged_line validator_response ''RISK_LEVEL''
                      in case (if truthy tagged_risk then Inr (the tagged_risk)
                               else infer_risk_level final_sql) of
                           Inl err \<Rightarrow> (Inl err, w2)
                         | Inr risk_level \<Rightarrow>
                             (let risk_level = upper (strip risk_level) in
                              case (if risk_level \<notin> {''LOW'', ''MEDIUM'', ''HIGH''}
                                    then infer_risk_level final_sql else Inr risk_level) of
                                Inl err \<Rightarrow> (Inl err, w2)
                              | Inr risk_level \<Rightarrow>
                                  (Inr \<lparr>rep_original_sql = original_sql,
                                        rep_optimized_sql = optimized_sql,
                                        rep_final_sql = final_sql,
                                        rep_optimizer_notes = optimizer_notes,
                                        rep_validator_notes = validator_notes,
                                        rep_risk_level = risk_level,
                                        rep_was_modified =
                                          (lower (strip final_sql) \<noteq> lower (strip original_sql))\<rparr>,
                                   w2)))))"

text \<open>
  The comparison of the specification's wording, for reference: two texts are the same
  when they agree after lowercasing and after replacing every run of whitespace by one
  blank (leading and trailing whitespace dropped).
\<close>

definition whitespace_normalized :: "string \<Rightarrow> string" where
  "whitespace_normalized s = join '' '' (split (lower s))"

section \<open>Turn orchestrator\<close>

definition default_response :: agent_response where
  \<comment> \<open>the defaults of the \<open>AgentResponse\<close> dataclass\<close>
  "default_response =
     \<lparr>resp_sql_query = None, resp_intent = UNKNOWN, resp_auto_execute = False,
      resp_requires_confirmation = True, resp_error = None, resp_optimizer_report = None\<rparr>"

text \<open>\<open>_handle_quick_intents\<close>: the responses that need no oracle call.\<close>

definition handle_quick_intents ::
  "'w env \<Rightarrow> agent_state \<Rightarrow> string \<Rightarrow> agent_intent \<Rightarrow> agent_response option" where
  "handle_quick_intents E ag user_input intent =
     (if intent = SHOW_DATABASES then
        Some (default_response\<lparr>resp_sql_query := Some ''SHOW DATABASES'', resp_intent := intent,
                resp_auto_execute := True, resp_requires_confirmation := False\<rparr>)
      else if intent = SHOW_TABLES then
        (if \<not> truthy (current_database ag) then
           Some (default_response\<lparr>resp_intent := intent, resp_requires_confirmation := False\<rparr>)
         else
           Some (default_response\<lparr>
                   resp_sql_query := Some (''SHOW TABLES FROM `'' @ the (current_database ag) @ ''`''),
                   resp_intent := intent, resp_auto_execute := True,
                   resp_requires_confirmation := False\<rparr>))
      else if intent = HELP then
        Some (default_response\<lparr>resp_intent := intent, resp_requires_confirmation := False\<rparr>)
      else
        (case use_match E user_input of
           None \<Rightarrow> None
         | Some db_name \<Rightarrow>
             if lower db_name \<notin> {''database'', ''db'', ''table'', ''to'', ''the'', ''a'', ''an''} then
               Some (default_response\<lparr>resp_sql_query := Some (''USE `'' @ db_name @ ''`''),
                       resp_intent := SWITCH_DATABASE, resp_auto_execute := True,
                       resp_requires_confirmation := False\<rparr>)
             else None))"

text \<open>
  \<open>_chat_inner\<close>, as far as the response is concerned: the two turns it persists at the
  end (\<open>_save_interaction\<close>) do not enter the response and are left out, and so is the
  digest of recent query outcomes, which goes into the prompt only.
\<close>

definition chat_inner ::
  "'w env \<Rightarrow> agent_state \<Rightarrow> (store_call \<Rightarrow> bool) \<Rightarrow> bool \<Rightarrow> store \<Rightarrow> string \<Rightarrow> 'w
   \<Rightarrow> (py_error + agent_response) \<times> 'w" where
  "chat_inner E ag up fault st user_input w =
     (let intent = classify_intent E user_input in
      case handle_quick_intents E ag user_input intent of
        Some quick_response \<Rightarrow> (Inr quick_response, w)
      | None \<Rightarrow>
          if \<not> truthy (current_thread_id ag) then
            (Inr (default_response\<lparr>resp_intent := UNKNOWN,
                    resp_error := Some ''No database context''\<rparr>), w)
          else
            (let context_block = build_rolling_context up fault st (the (current_thread_id ag)) in
             case llm_invoke E (Chat_prompt (py_or (current_database ag) ''None'')
                                  (take 3000 (schema_context ag)) (ctx_summary context_block)
                                  (ctx_recent_formatted context_block) user_input) w of
               (Inl msg, w1) \<Rightarrow>
                 (Inr (default_response\<lparr>resp_intent := intent, resp_error := Some msg\<rparr>), w1)
             | (Inr llm_response_text, w1) \<Rightarrow>
                 (let raw_sql = extract_sql llm_response_text in
                  case (if truthy raw_sql \<and> OPTIMIZER_ENABLED \<and>
                           intent \<in> {SELECT_QUERY, INSERT_DATA, UPDATE_DATA, DELETE_DATA, CREATE_TABLE}
                        then (case run_optimizer_pipeline E ag (the raw_sql) w1 of
                                (Inr report, w2) \<Rightarrow> (Some report, Some (rep_final_sql report), w2)
                              | (Inl _, w2) \<Rightarrow> (None, raw_sql, w2))
                        else (None, raw_sql, w1)) of
                    (optimizer_report, final_sql, w2) \<Rightarrow>
                      (case is_destructive final_sql of
                         Inl err \<Rightarrow> (Inl err, w2)
                       | Inr requires_confirmation \<Rightarrow>
                           (Inr \<lparr>resp_sql_query = final_sql, resp_intent = intent,
                                 resp_auto_execute = (intent \<in> {SHOW_DATABASES, SHOW_TABLES}),
                                 resp_requires_confirmation = requires_confirmation,
                                 resp_error = None,
                                 resp_optimizer_report = optimizer_report\<rparr>, w2)))))"

section \<open>Scripted collaborators\<close>

text \<open>
  Concrete collaborators for the worked scenarios.  The engine accepts exactly the
  queries listed; the oracle answers from a fixed table of prompts and raises on every
  other prompt; the world state is trivial.  A response wraps its query in a fenced
  \<open>sql\<close> block, the form the prompts ask for.
\<close>

definition fence :: "string \<Rightarrow> string" where
  "fence q = ''```sql'' @ nl @ q @ nl @ ''```''"

definition engine_accepting :: "string list \<Rightarrow> string \<Rightarrow> unit \<Rightarrow> query_result \<times> unit" where
  "engine_accepting accepted q w =
     (if q \<in> set accepted
      then (\<lparr>qr_success = True, qr_query = q, qr_error = None, qr_execution_ms = 5\<rparr>, w)
      else (\<lparr>qr_success = False, qr_query = q, qr_error = Some ''1054: Unknown column'',
              qr_execution_ms = 1\<rparr>, w))"

definition scripted_env ::
  "(prompt \<Rightarrow> string option) \<Rightarrow> string list \<Rightarrow> agent_intent \<Rightarrow> unit env" where
  "scripted_env answers accepted intent =
     \<lparr>execute_query = engine_accepting accepted,
      llm_invoke = (\<lambda>p w. case answers p of
                             None \<Rightarrow> (Inl ''connection refused'', w)
                           | Some r \<Rightarrow> (Inr r, w)),
      classify_intent = (\<lambda>_. intent),
      use_match = (\<lambda>_. None)\<rparr>"

definition healer_script :: "(string \<times> string) list \<Rightarrow> prompt \<Rightarrow> string option" where
  "healer_script corrections p =
     (case p of
        Healer_prompt _ _ failed_sql _ \<Rightarrow> map_option fence (map_of corrections failed_sql)
      | _ \<Rightarrow> None)"

definition shop_agent :: agent_state where
  "shop_agent = \<lparr>current_database = Some ''shop'', current_thread_id = Some ''thread_shop'',
                  schema_context = ''orders(id, customer_id, total)''\<rparr>"

text \<open>The queries of the worked healing scenarios.\<close>

definition q_cust :: string where
  "q_cust = ''SELECT * FROM orders WHERE cust_id = 7''"

definition q_order :: string where
  "q_order = ''SELECT * FROM order WHERE customer_id = 7''"

definition q_fixed :: string where
  "q_fixed = ''SELECT * FROM orders WHERE customer_id = 7''"

definition q_star :: string where
  "q_star = ''SELECT id FROM orders WHERE customer_id = 7''"

definition healing_env :: "(string \<times> string) list \<Rightarrow> string list \<Rightarrow> unit env" where
  "healing_env corrections accepted = scripted_env (healer_script corrections) accepted GENERAL_QUESTION"

text \<open>A partition with \<open>n\<close> persisted turns, numbered from 1, and stores around it.\<close>

definition chat_history :: "string \<Rightarrow> nat \<Rightarrow> chat_message list" where
  "chat_history tid n =
     map (\<lambda>i. \<lparr>msg_role = (if even i then ''assistant'' else ''human''),
                msg_content = ''turn'', msg_thread_id = tid, msg_sql_query = None,
                msg_sequence_no = int i\<rparr>) [1 ..< n + 1]"

definition store_without_summary :: "nat \<Rightarrow> store" where
  "store_without_summary n =
     \<lparr>dbma_sessions = Map.empty, dbma_messages = chat_history ''thread_shop'' n,
      dbma_conversation_summary = Map.empty\<rparr>"

definition store_with_summary :: "nat \<Rightarrow> int \<Rightarrow> store" where
  "store_with_summary n k =
     \<lparr>dbma_sessions = Map.empty, dbma_messages = chat_history ''thread_shop'' n,
      dbma_conversation_summary =
        [''thread_shop'' \<mapsto> \<lparr>summary_text = ''The user asked about orders.'',
                              summarized_up_to_seq = k, message_count_summarized = k\<rparr>]\<rparr>"

definition all_up :: "store_call \<Rightarrow> bool" where
  \<comment> \<open>the store answers every call\<close>
  "all_up c = True"


definition silent_env :: "unit env" where
  \<comment> \<open>the oracle raises on every prompt\<close>
  "silent_env = scripted_env (\<lambda>p. None) [] GENERAL_QUESTION"


text \<open>An oracle for the refinement pipeline and one for a chat turn.\<close>

definition pipeline_script :: "string \<Rightarrow> string \<Rightarrow> prompt \<Rightarrow> string option" where
  "pipeline_script optimizer_answer validator_answer p =
     (case p of
        Optimizer_prompt _ _ _ \<Rightarrow> Some optimizer_answer
      | Validator_prompt _ _ _ \<Rightarrow> Some validator_answer
      | _ \<Rightarrow> None)"

definition chat_script :: "string \<Rightarrow> prompt \<Rightarrow> string option" where
  "chat_script answer p = (case p of Chat_prompt _ _ _ _ _ \<Rightarrow> Some answer | _ \<Rightarrow> None)"

definition pipeline_env :: "string \<Rightarrow> string \<Rightarrow> unit env" where
  "pipeline_env optimizer_answer validator_answer =
     scripted_env (pipeline_script optimizer_answer validator_answer) [] SELECT_QUERY"

definition q_delete :: string where
  "q_delete = ''delete from orders where id = 7''"

definition q_spaced :: string where
  "q_spaced = ''SELECT  id FROM orders''"

definition q_plain :: string where
  "q_plain = ''SELECT id FROM orders''"

definition q_lowercase :: string where
  "q_lowercase = ''select id from orders''"

definition q_update :: string where
  "q_update = ''UPDATE orders SET total = 0 WHERE id = 7''"

definition no_change_note :: string where
  "no_change_note = ''OPTIMIZER_NOTES: No changes needed''"

definition safety_note :: string where
  "safety_note = ''VALIDATOR_NOTES: removes one row''"


section \<open>Facts about the string functions\<close>

lemma split_from_nonspace:
  "\<not> isspace c \<Longrightarrow>
   split_from cur (c # cs) \<noteq> [] \<and>
   hd (split_from cur (c # cs)) = rev cur @ takeWhile (\<lambda>c. \<not> isspace c) (c # cs)"
proof (induction cs arbitrary: cur c)
  case Nil
  then show ?case by simp
next
  case (Cons d ds)
  show ?case
  proof (cases "isspace d")
    case True
    with Cons.prems show ?thesis by simp
  next
    case False
    from Cons.IH [OF False, of "c # cur"] Cons.prems False show ?thesis by simp
  qed
qed

lemma rstrip_decomp: "s = rstrip s @ rev (takeWhile isspace (rev s))"
  unfolding rstrip_def by (metis rev_append rev_rev_ident takeWhile_dropWhile_id)

lemma rstrip_takeWhile:
  "takeWhile (\<lambda>c. \<not> isspace c) (rstrip s) = takeWhile (\<lambda>c. \<not> isspace c) s"
proof -
  let ?ws = "rev (takeWhile isspace (rev s))"
  have ws: "\<forall>c \<in> set ?ws. isspace c" by (auto dest: set_takeWhileD)
  have "takeWhile (\<lambda>c. \<not> isspace c) (rstrip s @ ?ws) = takeWhile (\<lambda>c. \<not> isspace c) (rstrip s)"
  proof (cases ?ws)
    case Nil then show ?thesis by simp
  next
    case (Cons w ws')
    with ws have "isspace w" by auto
    with Cons show ?thesis by (auto simp: takeWhile_append takeWhile_eq_all_conv [THEN iffD2])
  qed
  with rstrip_decomp [of s] show ?thesis by simp
qed

lemma rstrip_Nil_iff: "rstrip s = [] \<longleftrightarrow> (\<forall>c \<in> set s. isspace c)"
  by (auto simp: rstrip_def dropWhile_eq_Nil_conv)

lemma rstrip_hd: "\<not> isspace c \<Longrightarrow> \<exists>cs'. rstrip (c # cs) = c # cs'"
proof -
  assume c: "\<not> isspace c"
  then have "rstrip (c # cs) \<noteq> []" by (auto simp: rstrip_Nil_iff)
  then obtain d ds where d: "rstrip (c # cs) = d # ds" by (cases "rstrip (c # cs)") auto
  with rstrip_decomp [of "c # cs"] have "d = c" by (metis append_Cons list.inject)
  with d show ?thesis by simp
qed

lemma split_strip_Nil: "split (strip s) = [] \<longleftrightarrow> (\<forall>c \<in> set s. isspace c)"
proof (cases "dropWhile isspace s")
  case Nil
  have "strip s = []" unfolding strip_def lstrip_def rstrip_def Nil by simp
  moreover from Nil have "\<forall>c \<in> set s. isspace c" by (simp add: dropWhile_eq_Nil_conv)
  ultimately show ?thesis by (simp add: split_def)
next
  case (Cons c cs)
  then have c: "\<not> isspace c" by (metis hd_dropWhile list.sel(1) list.distinct(1))
  from rstrip_hd [OF c] obtain cs' where r: "rstrip (c # cs) = c # cs'" by blast
  from Cons have "\<not> (\<forall>c \<in> set s. isspace c)"
    by (metis dropWhile_eq_Nil_conv list.distinct(1))
  moreover from split_from_nonspace [OF c, of "[]" cs'] r Cons
  have "split (strip s) \<noteq> []" by (simp add: split_def strip_def lstrip_def)
  ultimately show ?thesis by simp
qed

lemma hd_split_strip:
  assumes "\<not> (\<forall>c \<in> set s. isspace c)"
  shows "hd (split (strip s)) = takeWhile (\<lambda>c. \<not> isspace c) (dropWhile isspace s)"
proof -
  from assms obtain c cs where t: "dropWhile isspace s = c # cs"
    by (cases "dropWhile isspace s") (auto simp: dropWhile_eq_Nil_conv)
  then have c: "\<not> isspace c" by (metis hd_dropWhile list.sel(1) list.distinct(1))
  from rstrip_hd [OF c] obtain cs' where r: "rstrip (c # cs) = c # cs'" by blast
  from split_from_nonspace [OF c, of "[]" cs'] r t
  have "hd (split (strip s)) = takeWhile (\<lambda>c. \<not> isspace c) (rstrip (c # cs))"
    by (simp add: split_def strip_def lstrip_def)
  with t show ?thesis by (simp add: rstrip_takeWhile)
qed

section \<open>The self-healing loop\<close>

lemma noop_correction_iff:
  "noop_correction c q \<longleftrightarrow> (\<not> truthy c \<or> strip (the c) = strip q)"
  by (cases c) (auto simp: noop_correction_def truthy_def)

lemma is_engine_call_simps [simp]:
  "is_engine_call (Engine_call q r)" "\<not> is_engine_call (Healer_call q e c n)"
  by (simp_all add: is_engine_call_def)

lemma engine_outcomes_simps [simp]:
  "engine_outcomes [] = []"
  "engine_outcomes (Engine_call q r # evs) = qr_success r # engine_outcomes evs"
  "engine_outcomes (Healer_call q e c n # evs) = engine_outcomes evs"
  by (simp_all add: engine_outcomes_def)

lemma corrections_fresh_simps [simp]:
  "corrections_fresh []"
  "corrections_fresh (Engine_call q r # evs) = corrections_fresh evs"
  "corrections_fresh (Healer_call q e c n # evs) = (\<not> noop_correction c q \<and> corrections_fresh evs)"
  by (simp_all add: corrections_fresh_def)

lemma heal_range: "[0 ..< MAX_HEAL_ATTEMPTS + 1] = [0, 1, 2, MAX_HEAL_ATTEMPTS]"
  by (simp add: MAX_HEAL_ATTEMPTS_def upt_rec)

lemma heal_loop_step:
  assumes run: "heal_loop E ag (a # xs) result cur hl w = (out, evs, w')"
    and ex: "execute_query E cur w = (res, w1)"
    and he: "heal_sql E ag cur (py_or (qr_error res) ''Unknown error'') w1 = (c, w2)"
  shows "(qr_success res \<and> evs = [Engine_call cur res] \<and> w' = w1 \<and>
            out = (if a > 0 then
                     (case hl of [] \<Rightarrow> Inl IndexError
                      | _ # _ \<Rightarrow> Inr (res, butlast hl @
                          [(last hl)\<lparr>ha_success := True, ha_execution_ms := qr_execution_ms res\<rparr>]))
                   else Inr (res, hl)))
       \<or> (\<not> qr_success res \<and> a = MAX_HEAL_ATTEMPTS \<and> evs = [Engine_call cur res] \<and>
            w' = w1 \<and> out = Inr (res, hl))
       \<or> (\<not> qr_success res \<and> a \<noteq> MAX_HEAL_ATTEMPTS \<and> noop_correction c cur \<and>
            evs = [Engine_call cur res,
                   Healer_call cur (py_or (qr_error res) ''Unknown error'') c (length hl)] \<and>
            w' = w2 \<and> out = Inr (res, hl))
       \<or> (\<not> qr_success res \<and> a \<noteq> MAX_HEAL_ATTEMPTS \<and> \<not> noop_correction c cur \<and>
            (\<exists>evs2. heal_loop E ag xs (Some res) (the c)
                       (hl @ [next_entry a cur (py_or (qr_error res) ''Unknown error'') c]) w2
                     = (out, evs2, w') \<and>
                    evs = Engine_call cur res
                          # Healer_call cur (py_or (qr_error res) ''Unknown error'') c (length hl)
                          # evs2))"
  using run ex he
  by (auto simp: heal_loop.simps Let_def noop_correction_iff next_entry_def split: if_splits list.splits prod.splits)

declare heal_loop.simps [simp del]

lemma heal_loop_engine_calls:
  "heal_loop E ag xs result cur hl w = (out, evs, w') \<Longrightarrow>
   length (filter is_engine_call evs) \<le> length xs"
proof (induction xs arbitrary: result cur hl w out evs w')
  case Nil
  then show ?case by (simp add: heal_loop.simps)
next
  case (Cons a xs)
  obtain res w1 where ex: "execute_query E cur w = (res, w1)" by (cases "execute_query E cur w")
  let ?err = "py_or (qr_error res) ''Unknown error''"
  obtain c w2 where he: "heal_sql E ag cur ?err w1 = (c, w2)" by (cases "heal_sql E ag cur ?err w1")
  from heal_loop_step [OF Cons.prems ex he] Cons.IH show ?case by fastforce
qed

lemma heal_loop_all_fail:
  assumes "heal_loop E ag (ys @ [MAX_HEAL_ATTEMPTS]) result cur hl w = (out, evs, w')"
    and "MAX_HEAL_ATTEMPTS \<notin> set ys"
    and "\<not> (True \<in> set (engine_outcomes evs))"
    and "corrections_fresh evs"
  shows "\<exists>r hl'. out = Inr (r, hl @ hl') \<and> \<not> qr_success r \<and> length hl' = length ys \<and>
           (\<forall>h \<in> set hl'. \<not> ha_success h) \<and>
           length (filter is_engine_call evs) = length ys + 1 \<and>
           (\<exists>q. last evs = Engine_call q r)"
  using assms
proof (induction ys arbitrary: result cur hl w out evs w')
  case Nil
  obtain res w1 where ex: "execute_query E cur w = (res, w1)" by (cases "execute_query E cur w")
  obtain c w2 where he: "heal_sql E ag cur (py_or (qr_error res) ''Unknown error'') w1 = (c, w2)"
    by (cases "heal_sql E ag cur (py_or (qr_error res) ''Unknown error'') w1")
  from Nil.prems(1) have run: "heal_loop E ag (MAX_HEAL_ATTEMPTS # []) result cur hl w = (out, evs, w')"
    by simp
  from heal_loop_step [OF run ex he] Nil.prems(3) show ?case by auto
next
  case (Cons a ys)
  obtain res w1 where ex: "execute_query E cur w = (res, w1)" by (cases "execute_query E cur w")
  let ?err = "py_or (qr_error res) ''Unknown error''"
  obtain c w2 where he: "heal_sql E ag cur ?err w1 = (c, w2)"
    by (cases "heal_sql E ag cur ?err w1")
  from Cons.prems(1)
  have run: "heal_loop E ag (a # (ys @ [MAX_HEAL_ATTEMPTS])) result cur hl w = (out, evs, w')"
    by simp
  from Cons.prems(2) have a: "a \<noteq> MAX_HEAL_ATTEMPTS" and ys: "MAX_HEAL_ATTEMPTS \<notin> set ys" by auto
  from heal_loop_step [OF run ex he] a Cons.prems(3,4)
  obtain evs2 where
    rec: "heal_loop E ag (ys @ [MAX_HEAL_ATTEMPTS]) (Some res) (the c) (hl @ [next_entry a cur ?err c]) w2
            = (out, evs2, w')"
    and evs: "evs = Engine_call cur res # Healer_call cur ?err c (length hl) # evs2"
    by auto
  from evs Cons.prems(3,4) have p: "\<not> (True \<in> set (engine_outcomes evs2))" "corrections_fresh evs2"
    by auto
  from Cons.IH [OF rec ys p] obtain r hl' q where
    ih: "out = Inr (r, (hl @ [next_entry a cur ?err c]) @ hl')" "\<not> qr_success r" "length hl' = length ys"
        "\<forall>h \<in> set hl'. \<not> ha_success h" "length (filter is_engine_call evs2) = length ys + 1"
        "last evs2 = Engine_call q r"
    by blast
  from ih(5) have ne: "evs2 \<noteq> []" by auto
  have "out = Inr (r, hl @ (next_entry a cur ?err c # hl'))" using ih(1) by simp
  moreover have "length (next_entry a cur ?err c # hl') = length (a # ys)" using ih(3) by simp
  moreover have "\<forall>h \<in> set (next_entry a cur ?err c # hl'). \<not> ha_success h"
    using ih(4) by (simp add: next_entry_def)
  moreover have "length (filter is_engine_call evs) = length (a # ys) + 1" using evs ih(5) by simp
  moreover have "last evs = Engine_call q r" using evs ne ih(6) by simp
  ultimately show ?case using ih(2) by blast
qed

lemma split_in_two:
  "pre @ x # post = a # b # ys \<Longrightarrow>
   (pre = [] \<and> x = a) \<or> (pre = [a] \<and> x = b \<and> post = ys) \<or>
   (\<exists>pre'. pre = a # b # pre' \<and> ys = pre' @ x # post)"
proof (cases pre)
  case Nil
  assume "pre @ x # post = a # b # ys"
  with Nil show ?thesis by simp
next
  case (Cons p ps)
  assume eq: "pre @ x # post = a # b # ys"
  show ?thesis
  proof (cases ps)
    case Nil
    with Cons eq show ?thesis by simp
  next
    case (Cons p' ps')
    with \<open>pre = p # ps\<close> eq show ?thesis by simp
  qed
qed

lemma heal_loop_early_stop:
  assumes "heal_loop E ag xs result cur hl w = (out, evs, w')"
    and "evs = pre @ Healer_call q e c n # post"
    and "noop_correction c q"
  shows "post = [] \<and> (\<exists>r hl'. pre \<noteq> [] \<and> last pre = Engine_call q r \<and> \<not> qr_success r \<and>
           out = Inr (r, hl') \<and> length hl' = n)"
  using assms
proof (induction xs arbitrary: result cur hl w out evs w' pre)
  case Nil
  then show ?case by (simp add: heal_loop.simps)
next
  case (Cons a xs)
  obtain res w1 where ex: "execute_query E cur w = (res, w1)" by (cases "execute_query E cur w")
  let ?err = "py_or (qr_error res) ''Unknown error''"
  obtain c0 w2 where he: "heal_sql E ag cur ?err w1 = (c0, w2)"
    by (cases "heal_sql E ag cur ?err w1")
  from heal_loop_step [OF Cons.prems(1) ex he]
  consider
    (single) "evs = [Engine_call cur res]"
  | (stop) "\<not> qr_success res" "noop_correction c0 cur"
      "evs = [Engine_call cur res, Healer_call cur ?err c0 (length hl)]" "out = Inr (res, hl)"
  | (continue) evs2 where "\<not> noop_correction c0 cur"
      "heal_loop E ag xs (Some res) (the c0) (hl @ [next_entry a cur ?err c0]) w2 = (out, evs2, w')"
      "evs = Engine_call cur res # Healer_call cur ?err c0 (length hl) # evs2"
    by blast
  then show ?case
  proof cases
    case single
    with Cons.prems(2) have "pre @ Healer_call q e c n # post = [Engine_call cur res]" by simp
    then show ?thesis by (cases pre) auto
  next
    case stop
    from stop(3) Cons.prems(2)
    have "pre @ Healer_call q e c n # post
            = Engine_call cur res # Healer_call cur ?err c0 (length hl) # []" by simp
    from split_in_two [OF this]
    have "pre = [Engine_call cur res] \<and> post = [] \<and> q = cur \<and> c = c0 \<and> n = length hl"
      by auto
    with stop show ?thesis by simp
  next
    case continue
    from continue(3) Cons.prems(2)
    have "pre @ Healer_call q e c n # post
            = Engine_call cur res # Healer_call cur ?err c0 (length hl) # evs2" by simp
    from split_in_two [OF this]
    have "(pre = [Engine_call cur res] \<and> q = cur \<and> c = c0) \<or>
          (\<exists>pre'. pre = Engine_call cur res # Healer_call cur ?err c0 (length hl) # pre' \<and>
                  evs2 = pre' @ Healer_call q e c n # post)"
      by auto
    with continue(1) Cons.prems(3) obtain pre' where
      pre: "pre = Engine_call cur res # Healer_call cur ?err c0 (length hl) # pre'"
      and evs2: "evs2 = pre' @ Healer_call q e c n # post"
      by auto
    from Cons.IH [OF continue(2) evs2 Cons.prems(3)] pre show ?thesis by auto
  qed
qed

lemma observers_simps [simp]:
  "returned_result (Inr (r, hl), evs, w) = Some r"
  "returned_log (Inr (r, hl), evs, w) = Some hl"
  "returned_result (Inl er, evs, w) = None"
  "returned_log (Inl er, evs, w) = None"
  "events (out, evs, w) = evs"
  by (simp_all add: returned_result_def returned_log_def events_def)

subsection \<open>Bounded retries\<close>

text \<open>
  Claim C1 (as amended).  Every run of \<open>execute_with_healing\<close> makes at most
  \<open>MAX_HEAL_ATTEMPTS + 1\<close> engine calls.  If a database is selected, every engine call
  of the run fails and every correction the oracle gives is non-empty and differs, after
  trimming, from the query it corrects, then the run ends exhausted: it returns the
  result of its last engine call, which failed, with a heal log of exactly
  \<open>MAX_HEAL_ATTEMPTS\<close> entries, none marked successful, after exactly
  \<open>MAX_HEAL_ATTEMPTS + 1\<close> engine calls.
\<close>

theorem bounded_retries:
  "length (filter is_engine_call (events (execute_with_healing E ag sql w))) \<le> MAX_HEAL_ATTEMPTS + 1 \<and>
   (truthy (current_database ag) \<and>
    True \<notin> set (engine_outcomes (events (execute_with_healing E ag sql w))) \<and>
    corrections_fresh (events (execute_with_healing E ag sql w)) \<longrightarrow>
    (\<exists>r hl q. returned_result (execute_with_healing E ag sql w) = Some r \<and> \<not> qr_success r \<and>
       returned_log (execute_with_healing E ag sql w) = Some hl \<and>
       length hl = MAX_HEAL_ATTEMPTS \<and> (\<forall>h \<in> set hl. \<not> ha_success h) \<and>
       length (filter is_engine_call (events (execute_with_healing E ag sql w))) = MAX_HEAL_ATTEMPTS + 1 \<and>
       last (events (execute_with_healing E ag sql w)) = Engine_call q r))"
proof -
  obtain out evs w' where run: "execute_with_healing E ag sql w = (out, evs, w')"
    by (cases "execute_with_healing E ag sql w")
  have bound: "length (filter is_engine_call evs) \<le> MAX_HEAL_ATTEMPTS + 1"
  proof (cases "truthy (current_database ag)")
    case True
    with run have "heal_loop E ag [0 ..< MAX_HEAL_ATTEMPTS + 1] None sql [] w = (out, evs, w')"
      by (simp add: execute_with_healing_def)
    from heal_loop_engine_calls [OF this] show ?thesis by simp
  next
    case False
    with run show ?thesis by (auto simp: execute_with_healing_def)
  qed
  have exhausted: "\<exists>r hl q. out = Inr (r, hl) \<and> \<not> qr_success r \<and>
       length hl = MAX_HEAL_ATTEMPTS \<and> (\<forall>h \<in> set hl. \<not> ha_success h) \<and>
       length (filter is_engine_call evs) = MAX_HEAL_ATTEMPTS + 1 \<and> last evs = Engine_call q r"
    if db: "truthy (current_database ag)" and fail: "True \<notin> set (engine_outcomes evs)"
      and fresh: "corrections_fresh evs"
  proof -
    from run db have "heal_loop E ag ([0 ..< MAX_HEAL_ATTEMPTS] @ [MAX_HEAL_ATTEMPTS]) None sql [] w
        = (out, evs, w')"
      by (simp add: execute_with_healing_def)
    from heal_loop_all_fail [OF this _ fail fresh] show ?thesis by auto
  qed
  from bound exhausted run show ?thesis by auto
qed

text \<open>
  The hypotheses hold in the scenario where the engine rejects every query and the oracle
  proposes three different corrections: four engine calls, three log entries.
\<close>

theorem bounded_retries_witness:
  "truthy (current_database shop_agent) \<and>
   True \<notin> set (engine_outcomes (events (execute_with_healing
      (healing_env [(q_cust, q_order), (q_order, q_fixed), (q_fixed, q_star)] []) shop_agent q_cust ()))) \<and>
   corrections_fresh (events (execute_with_healing
      (healing_env [(q_cust, q_order), (q_order, q_fixed), (q_fixed, q_star)] []) shop_agent q_cust ())) \<and>
   map_option length (returned_log (execute_with_healing
      (healing_env [(q_cust, q_order), (q_order, q_fixed), (q_fixed, q_star)] []) shop_agent q_cust ())) = Some 3 \<and>
   length (filter is_engine_call (events (execute_with_healing
      (healing_env [(q_cust, q_order), (q_order, q_fixed), (q_fixed, q_star)] []) shop_agent q_cust ()))) = 4"
proof -
  let ?run = "execute_with_healing
      (healing_env [(q_cust, q_order), (q_order, q_fixed), (q_fixed, q_star)] []) shop_agent q_cust ()"
  have h: "truthy (current_database shop_agent) \<and> True \<notin> set (engine_outcomes (events ?run)) \<and>
           corrections_fresh (events ?run)"
    by code_simp
  with bounded_retries [of "healing_env [(q_cust, q_order), (q_order, q_fixed), (q_fixed, q_star)] []"
      shop_agent q_cust "()"]
  obtain hl where "returned_log ?run = Some hl" "length hl = MAX_HEAL_ATTEMPTS"
    "length (filter is_engine_call (events ?run)) = MAX_HEAL_ATTEMPTS + 1"
    by blast
  with h show ?thesis by (simp add: MAX_HEAL_ATTEMPTS_def)
qed

text \<open>
  Without the condition on the corrections the heal log can be shorter: when the oracle
  hands back the failing query, an always-failing run ends after one engine call with an
  empty log.
\<close>

theorem bounded_retries_counterexample:
  "truthy (current_database shop_agent) \<and>
   engine_outcomes (events (execute_with_healing (healing_env [(q_cust, q_cust)] []) shop_agent q_cust ()))
     = [False] \<and>
   map_option length (returned_log (execute_with_healing (healing_env [(q_cust, q_cust)] []) shop_agent q_cust ()))
     = Some 0 \<and>
   MAX_HEAL_ATTEMPTS = 3"
  by code_simp

subsection \<open>Early stop on a correction that changes nothing\<close>

text \<open>
  Claim C4.  Take any run of \<open>execute_with_healing\<close> and any healer call in it whose
  correction is empty (no text at all) or equal, after trimming, to the query that just
  failed.  Then that call is the last event of the run (no further engine call), the event
  before it is the failed engine call on the same query, the run returns that failing
  result, and the returned heal log is as long as it was when the oracle was asked.
\<close>

theorem early_stop_on_noop_correction:
  assumes "events (execute_with_healing E ag sql w) = pre @ Healer_call q e c n # post"
    and "noop_correction c q"
  shows "post = [] \<and>
         (\<exists>r hl. pre \<noteq> [] \<and> last pre = Engine_call q r \<and> \<not> qr_success r \<and>
            returned_result (execute_with_healing E ag sql w) = Some r \<and>
            returned_log (execute_with_healing E ag sql w) = Some hl \<and> length hl = n)"
proof -
  obtain out evs w' where run: "execute_with_healing E ag sql w = (out, evs, w')"
    by (cases "execute_with_healing E ag sql w")
  with assms(1) have evs: "evs = pre @ Healer_call q e c n # post" by simp
  from run evs have "heal_loop E ag [0 ..< MAX_HEAL_ATTEMPTS + 1] None sql [] w = (out, evs, w')"
    by (auto simp: execute_with_healing_def split: if_splits)
  from heal_loop_early_stop [OF this evs assms(2)] run show ?thesis by auto
qed

text \<open>
  A run in which the first correction is accepted and the second one repeats the failing
  query: the log keeps its one entry.
\<close>

theorem early_stop_on_noop_correction_witness:
  "events (execute_with_healing (healing_env [(q_cust, q_order), (q_order, q_order)] []) shop_agent q_cust ())
     = [Engine_call q_cust \<lparr>qr_success = False, qr_query = q_cust,
                             qr_error = Some ''1054: Unknown column'', qr_execution_ms = 1\<rparr>,
        Healer_call q_cust ''1054: Unknown column'' (Some q_order) 0,
        Engine_call q_order \<lparr>qr_success = False, qr_query = q_order,
                              qr_error = Some ''1054: Unknown column'', qr_execution_ms = 1\<rparr>]
       @ Healer_call q_order ''1054: Unknown column'' (Some q_order) 1 # [] \<and>
   noop_correction (Some q_order) q_order \<and>
   map_option length (returned_log
      (execute_with_healing (healing_env [(q_cust, q_order), (q_order, q_order)] []) shop_agent q_cust ()))
     = Some 1"
proof -
  let ?run = "execute_with_healing (healing_env [(q_cust, q_order), (q_order, q_order)] []) shop_agent q_cust ()"
  let ?pre = "[Engine_call q_cust \<lparr>qr_success = False, qr_query = q_cust,
                             qr_error = Some ''1054: Unknown column'', qr_execution_ms = 1\<rparr>,
        Healer_call q_cust ''1054: Unknown column'' (Some q_order) 0,
        Engine_call q_order \<lparr>qr_success = False, qr_query = q_order,
                              qr_error = Some ''1054: Unknown column'', qr_execution_ms = 1\<rparr>]"
  have h1: "events ?run = ?pre @ Healer_call q_order ''1054: Unknown column'' (Some q_order) 1 # []"
    by code_simp
  have h2: "noop_correction (Some q_order) q_order" by (simp add: noop_correction_def)
  from early_stop_on_noop_correction [OF h1 h2]
  obtain hl where "returned_log ?run = Some hl" "length hl = 1" by blast
  with h1 h2 show ?thesis by simp
qed

subsection \<open>Success on the third engine call\<close>

text \<open>
  Claim C5 (as amended).  If the run makes three engine calls of which the first two fail
  and the third succeeds (so the oracle gave two corrections that were accepted as
  different from the queries they replace), then \<open>execute_with_healing\<close> returns the
  successful result with a heal log of length 2 in which the second entry, the one whose
  correction succeeded, is marked successful and the first entry is not.
\<close>

theorem healed_on_third_call:
  assumes out: "engine_outcomes (events (execute_with_healing E ag sql w)) = [False, False, True]"
  shows "\<exists>r h1 h2. returned_result (execute_with_healing E ag sql w) = Some r \<and> qr_success r \<and>
           returned_log (execute_with_healing E ag sql w) = Some [h1, h2] \<and>
           \<not> ha_success h1 \<and> ha_success h2 \<and>
           length (filter is_engine_call (events (execute_with_healing E ag sql w))) = 3"
proof -
  obtain out0 evs w' where run0: "execute_with_healing E ag sql w = (out0, evs, w')"
    by (cases "execute_with_healing E ag sql w")
  with out have oc: "engine_outcomes evs = [False, False, True]" by simp
  from run0 oc have db: "truthy (current_database ag)"
    by (auto simp: execute_with_healing_def split: if_splits)
  with run0 have l0: "heal_loop E ag (0 # [1, 2, MAX_HEAL_ATTEMPTS]) None sql [] w = (out0, evs, w')"
    unfolding execute_with_healing_def heal_range by simp
  \<comment> \<open>first engine call\<close>
  obtain r0 w1 where ex0: "execute_query E sql w = (r0, w1)" by (cases "execute_query E sql w")
  let ?e0 = "py_or (qr_error r0) ''Unknown error''"
  obtain c0 w2 where he0: "heal_sql E ag sql ?e0 w1 = (c0, w2)" by (cases "heal_sql E ag sql ?e0 w1")
  from heal_loop_step [OF l0 ex0 he0] oc obtain evs1 where
    l1: "heal_loop E ag (1 # [2, MAX_HEAL_ATTEMPTS]) (Some r0) (the c0) ([] @ [next_entry 0 sql ?e0 c0]) w2
           = (out0, evs1, w')"
    and evs: "evs = Engine_call sql r0 # Healer_call sql ?e0 c0 (length ([]::heal_attempt list)) # evs1"
    by auto
  from evs oc have oc1: "engine_outcomes evs1 = [False, True]" by simp
  \<comment> \<open>second engine call\<close>
  let ?q1 = "the c0" and ?hl1 = "[] @ [next_entry 0 sql ?e0 c0]"
  obtain r1 w3 where ex1: "execute_query E ?q1 w2 = (r1, w3)" by (cases "execute_query E ?q1 w2")
  let ?e1 = "py_or (qr_error r1) ''Unknown error''"
  obtain c1 w4 where he1: "heal_sql E ag ?q1 ?e1 w3 = (c1, w4)" by (cases "heal_sql E ag ?q1 ?e1 w3")
  from heal_loop_step [OF l1 ex1 he1] oc1 obtain evs2 where
    l2: "heal_loop E ag (2 # [MAX_HEAL_ATTEMPTS]) (Some r1) (the c1) (?hl1 @ [next_entry 1 ?q1 ?e1 c1]) w4
           = (out0, evs2, w')"
    and evs1: "evs1 = Engine_call ?q1 r1 # Healer_call ?q1 ?e1 c1 (length ?hl1) # evs2"
    by auto
  from evs1 oc1 have oc2: "engine_outcomes evs2 = [True]" by simp
  \<comment> \<open>third engine call\<close>
  let ?q2 = "the c1" and ?hl2 = "?hl1 @ [next_entry 1 ?q1 ?e1 c1]"
  obtain r2 w5 where ex2: "execute_query E ?q2 w4 = (r2, w5)" by (cases "execute_query E ?q2 w4")
  let ?e2 = "py_or (qr_error r2) ''Unknown error''"
  obtain c2 w6 where he2: "heal_sql E ag ?q2 ?e2 w5 = (c2, w6)" by (cases "heal_sql E ag ?q2 ?e2 w5")
  from heal_loop_step [OF l2 ex2 he2] oc2
  have fin: "qr_success r2" "evs2 = [Engine_call ?q2 r2]"
    "out0 = Inr (r2, [next_entry 0 sql ?e0 c0,
                      (next_entry 1 ?q1 ?e1 c1)\<lparr>ha_success := True, ha_execution_ms := qr_execution_ms r2\<rparr>])"
    by auto
  from fin evs evs1 run0 show ?thesis by (simp add: next_entry_def)
qed

theorem healed_on_third_call_witness:
  "engine_outcomes (events (execute_with_healing
      (healing_env [(q_cust, q_order), (q_order, q_fixed)] [q_fixed]) shop_agent q_cust ())) = [False, False, True] \<and>
   map_option length (returned_log (execute_with_healing
      (healing_env [(q_cust, q_order), (q_order, q_fixed)] [q_fixed]) shop_agent q_cust ())) = Some 2 \<and>
   map_option qr_success (returned_result (execute_with_healing
      (healing_env [(q_cust, q_order), (q_order, q_fixed)] [q_fixed]) shop_agent q_cust ())) = Some True"
proof -
  let ?run = "execute_with_healing
      (healing_env [(q_cust, q_order), (q_order, q_fixed)] [q_fixed]) shop_agent q_cust ()"
  have h: "engine_outcomes (events ?run) = [False, False, True]" by code_simp
  from healed_on_third_call [OF h] h show ?thesis by auto
qed

text \<open>
  The scenario of the specification (two failures, two different corrections, success on
  the third call): the first log entry stays unsuccessful, so not both entries are marked
  successful.
\<close>

theorem healed_on_third_call_counterexample:
  "engine_outcomes (events (execute_with_healing
      (healing_env [(q_cust, q_order), (q_order, q_fixed)] [q_fixed]) shop_agent q_cust ())) = [False, False, True] \<and>
   corrections_fresh (events (execute_with_healing
      (healing_env [(q_cust, q_order), (q_order, q_fixed)] [q_fixed]) shop_agent q_cust ())) \<and>
   map_option (map ha_success) (returned_log (execute_with_healing
      (healing_env [(q_cust, q_order), (q_order, q_fixed)] [q_fixed]) shop_agent q_cust ())) = Some [False, True]"
  by code_simp

section \<open>The rolling memory manager\<close>













subsection \<open>The fold invariant\<close>




subsection \<open>The fold when the oracle fails\<close>

text \<open>
  Claim C3 (the code departs from it).  A partition with 43 turns and a summary up to
  sequence number 2 has 41 unsummarised turns, so the fold runs and turn 3 is to be folded.
  The oracle raises.  \<open>_summarize_messages\<close> then returns the existing summary text, and
  \<open>update_summary_if_needed\<close> saves it with the new mark: the text is unchanged, but
  \<open>summarized_up_to_seq\<close> moves from 2 to 3 and the count from 2 to 3.  Turn 3 is now
  neither in the summary text nor among the unsummarised turns 4 to 43, and the next
  activation does not retry it.
\<close>

theorem fold_on_oracle_failure_advances:
  "dbma_conversation_summary (store_with_summary 43 2) ''thread_shop''
     = Some \<lparr>summary_text = ''The user asked about orders.'', summarized_up_to_seq = 2,
             message_count_summarized = 2\<rparr> \<and>
   fst (llm_invoke silent_env (Summarizer_prompt []) ()) = Inl ''connection refused'' \<and>
   dbma_conversation_summary
      (fst (update_summary_if_needed silent_env all_up ''thread_shop'' (store_with_summary 43 2) ()))
      ''thread_shop''
     = Some \<lparr>summary_text = ''The user asked about orders.'', summarized_up_to_seq = 3,
             message_count_summarized = 3\<rparr> \<and>
   map msg_sequence_no
      (get_messages_after_seq all_up
         (fst (update_summary_if_needed silent_env all_up ''thread_shop'' (store_with_summary 43 2) ()))
         ''thread_shop'' 3)
     = map int [4 ..< 44]"
  by code_simp

lemma length_format_history: "length (format_history_for_llm ms b) \<le> length ms"
proof (induction ms)
  case Nil
  show ?case by (simp add: format_history_for_llm_def)
next
  case (Cons m ms)
  then show ?case by (simp add: format_history_for_llm_def Let_def)
qed

lemma length_recent_messages: "length (get_recent_messages up st tid n) \<le> n"
  by (simp add: get_recent_messages_def)

subsection \<open>The window cap\<close>

text \<open>
  Claim C7.  Whatever the store holds, whether or not a summary exists, whichever store
  calls fail and whether or not the fallback path is taken, the context built by
  \<open>_build_rolling_context\<close> has at most \<open>RECENT_MESSAGES_COUNT\<close> recent turns.
\<close>

theorem window_cap:
  "length (ctx_recent_formatted (build_rolling_context up fault st tid)) \<le> RECENT_MESSAGES_COUNT"
proof -
  have fmt: "length (format_history_for_llm ms True) \<le> RECENT_MESSAGES_COUNT"
    if "length ms \<le> RECENT_MESSAGES_COUNT" for ms
    using that length_format_history [of ms True] by simp
  show ?thesis
  proof (cases fault)
    case True
    with fmt [OF length_recent_messages] show ?thesis by (simp add: build_rolling_context_def)
  next
    case False
    show ?thesis
    proof (cases "load_conversation_summary up st tid")
      case None
      with False fmt [OF length_recent_messages [of up st tid RECENT_MESSAGES_COUNT]] length_recent_messages [of up st tid RECENT_MESSAGES_COUNT]
      show ?thesis by (simp add: build_rolling_context_def Let_def)
    next
      case (Some ex)
      let ?uns = "get_messages_after_seq up st tid (summarized_up_to_seq ex)"
      let ?keep = "if length ?uns > RECENT_MESSAGES_COUNT
                   then drop (length ?uns - RECENT_MESSAGES_COUNT) ?uns else ?uns"
      have "length ?keep \<le> RECENT_MESSAGES_COUNT" by simp
      from fmt [OF this] Some False show ?thesis
        by (auto simp: build_rolling_context_def Let_def split: if_splits)
    qed
  qed
qed

text \<open>
  With 83 turns above the summary mark, and with 85 turns and no summary, the window
  holds 40 turns.
\<close>

theorem window_cap_witness:
  "length (ctx_recent_formatted (build_rolling_context all_up False (store_with_summary 85 2) ''thread_shop''))
     \<le> RECENT_MESSAGES_COUNT \<and>
   length (get_messages_after_seq all_up (store_with_summary 85 2) ''thread_shop'' 2) = 83 \<and>
   length (ctx_recent_formatted (build_rolling_context all_up False (store_without_summary 85) ''thread_shop''))
     = 40"
proof -
  have a: "length (ctx_recent_formatted (build_rolling_context all_up False (store_with_summary 85 2) ''thread_shop''))
     \<le> RECENT_MESSAGES_COUNT"
    by (rule window_cap)
  have b: "length (get_messages_after_seq all_up (store_with_summary 85 2) ''thread_shop'' 2) = 83"
    by code_simp
  have c: "length (ctx_recent_formatted (build_rolling_context all_up False (store_without_summary 85) ''thread_shop''))
     = 40"
    by code_simp
  from a b c show ?thesis by simp
qed

subsection \<open>Partition identifiers\<close>

text \<open>
  Claim C6.  The identifier \<open>get_or_create_session\<close> returns is
  \<open>generate_thread_id\<close> of the host, user and database (host and user taken from the
  configuration when not given); it is the same whether or not the upsert succeeds,
  whatever the store holds and whenever the call is made; and \<open>generate_thread_id\<close> is
  \<open>thread_\<close> followed by the first 32 characters of the SHA-256 hex digest of
  \<open>host::user::database\<close>.
\<close>

theorem session_identifier_deterministic:
  "fst (get_or_create_session H cfg up now database_name host user st)
     = generate_thread_id H (py_or host (cfg_host cfg)) (py_or user (cfg_user cfg)) database_name \<and>
   fst (get_or_create_session H cfg up now database_name host user st)
     = fst (get_or_create_session H cfg up' now' database_name host user st') \<and>
   generate_thread_id H h u d = ''thread_'' @ take 32 (H (h @ ''::'' @ u @ ''::'' @ d))"
  by (simp add: get_or_create_session_def generate_thread_id_def Let_def)

section \<open>Leading verbs, the refinement pipeline and the turn orchestrator\<close>

lemma leading_verb_all_space: "(\<forall>c \<in> set s. isspace c) \<Longrightarrow> leading_verb s = []"
  by (simp add: leading_verb_def upper_def dropWhile_eq_Nil_conv [THEN iffD2])

lemma leading_verb_split:
  "\<not> (\<forall>c \<in> set s. isspace c) \<Longrightarrow>
   \<exists>w ws. split (strip s) = w # ws \<and> upper w = leading_verb s"
proof -
  assume ns: "\<not> (\<forall>c \<in> set s. isspace c)"
  then have "split (strip s) \<noteq> []" by (simp add: split_strip_Nil)
  then obtain w ws where sp: "split (strip s) = w # ws" by (cases "split (strip s)") auto
  from hd_split_strip [OF ns] sp have "w = takeWhile (\<lambda>c. \<not> isspace c) (dropWhile isspace s)" by simp
  with sp show ?thesis by (simp add: leading_verb_def)
qed

lemma is_destructive_iff:
  "is_destructive (Some s) = Inr True \<longleftrightarrow>
   s \<noteq> [] \<and> leading_verb s \<in> {''DELETE'', ''DROP'', ''TRUNCATE'', ''UPDATE''}"
proof (cases "\<forall>c \<in> set s. isspace c")
  case True
  then have "split (strip s) = []" by (simp add: split_strip_Nil)
  with True leading_verb_all_space [OF True] show ?thesis
    by (simp add: is_destructive_def truthy_def)
next
  case False
  then have "s \<noteq> []" by auto
  moreover from leading_verb_split [OF False] obtain w ws where
    "split (strip s) = w # ws" "upper w = leading_verb s" by blast
  ultimately show ?thesis by (simp add: is_destructive_def truthy_def)
qed

lemma infer_risk_level_by_verb:
  "(leading_verb s \<in> {''DELETE'', ''DROP'', ''TRUNCATE''} \<longrightarrow> infer_risk_level s = Inr ''HIGH'') \<and>
   (leading_verb s \<in> {''UPDATE'', ''INSERT'', ''ALTER'', ''CREATE''} \<longrightarrow> infer_risk_level s = Inr ''MEDIUM'') \<and>
   (leading_verb s \<noteq> [] \<and> leading_verb s \<notin> {''DELETE'', ''DROP'', ''TRUNCATE''} \<and>
    leading_verb s \<notin> {''UPDATE'', ''INSERT'', ''ALTER'', ''CREATE''} \<longrightarrow> infer_risk_level s = Inr ''LOW'')"
proof (cases "\<forall>c \<in> set s. isspace c")
  case True
  from leading_verb_all_space [OF True] show ?thesis by simp
next
  case False
  then have "s \<noteq> []" by auto
  moreover from leading_verb_split [OF False] obtain w ws where
    "split (strip s) = w # ws" "upper w = leading_verb s" by blast
  ultimately show ?thesis by (simp add: infer_risk_level_def Let_def)
qed

subsection \<open>Risk fallback\<close>

text \<open>
  Claim C8.  Take a pipeline run in which both oracle calls return, and let the validator's
  response carry no \<open>RISK_LEVEL\<close> line, or one whose value, trimmed and uppercased, is
  none of \<open>LOW\<close>, \<open>MEDIUM\<close>, \<open>HIGH\<close>.  If the leading verb of the final query is
  \<open>DELETE\<close>, \<open>DROP\<close> or \<open>TRUNCATE\<close> in any letter case, the run produces a report
  whose risk level is \<open>HIGH\<close>; if it is \<open>UPDATE\<close>, \<open>INSERT\<close>, \<open>ALTER\<close> or
  \<open>CREATE\<close>, the risk level is \<open>MEDIUM\<close>; for every other leading verb (the read-only
  ones among them) it is \<open>LOW\<close>.
\<close>

theorem risk_fallback:
  assumes opt: "llm_invoke E (Optimizer_prompt (py_or (current_database ag) ''unknown'')
                    (take 1500 (schema_context ag)) original_sql) w = (Inr optimizer_response, w1)"
    and val: "llm_invoke E (Validator_prompt (py_or (current_database ag) ''unknown'')
                    (take 1500 (schema_context ag))
                    (py_or (extract_sql optimizer_response) original_sql)) w1
                = (Inr validator_response, w2)"
    and final: "final_sql = py_or (extract_sql validator_response)
                              (py_or (extract_sql optimizer_response) original_sql)"
    and unclassified:
      "(case extract_tagged_line validator_response ''RISK_LEVEL'' of
          None \<Rightarrow> True
        | Some v \<Rightarrow> upper (strip v) \<notin> {''LOW'', ''MEDIUM'', ''HIGH''})"
  shows "(leading_verb final_sql \<in> {''DELETE'', ''DROP'', ''TRUNCATE''} \<longrightarrow>
            (\<exists>rep. run_optimizer_pipeline E ag original_sql w = (Inr rep, w2) \<and>
                   rep_final_sql rep = final_sql \<and> rep_risk_level rep = ''HIGH'')) \<and>
         (leading_verb final_sql \<in> {''UPDATE'', ''INSERT'', ''ALTER'', ''CREATE''} \<longrightarrow>
            (\<exists>rep. run_optimizer_pipeline E ag original_sql w = (Inr rep, w2) \<and>
                   rep_final_sql rep = final_sql \<and> rep_risk_level rep = ''MEDIUM'')) \<and>
         (leading_verb final_sql \<noteq> [] \<and>
          leading_verb final_sql \<notin> {''DELETE'', ''DROP'', ''TRUNCATE''} \<and>
          leading_verb final_sql \<notin> {''UPDATE'', ''INSERT'', ''ALTER'', ''CREATE''} \<longrightarrow>
            (\<exists>rep. run_optimizer_pipeline E ag original_sql w = (Inr rep, w2) \<and>
                   rep_final_sql rep = final_sql \<and> rep_risk_level rep = ''LOW''))"
proof -
  let ?tag = "extract_tagged_line validator_response ''RISK_LEVEL''"
  have fallback: "\<exists>rep. run_optimizer_pipeline E ag original_sql w = (Inr rep, w2) \<and>
                   rep_final_sql rep = final_sql \<and> rep_risk_level rep = level"
    if inf: "infer_risk_level final_sql = Inr level" and lv: "level \<in> {''LOW'', ''MEDIUM'', ''HIGH''}"
    for level
  proof -
    from lv have norm: "upper (strip level) = level"
      by (auto simp: upper_def upper_char_def strip_def lstrip_def rstrip_def isspace_def)
    show ?thesis
    proof (cases "truthy ?tag")
      case True
      then obtain v where v: "?tag = Some v" by (cases ?tag) (auto simp: truthy_def)
      with unclassified have "upper (strip v) \<notin> {''LOW'', ''MEDIUM'', ''HIGH''}" by simp
      with opt val final inf v True show ?thesis
        by (simp add: run_optimizer_pipeline_def invoke_sub_agent_def Let_def)
    next
      case False
      with opt val final inf norm lv show ?thesis
        by (auto simp: run_optimizer_pipeline_def invoke_sub_agent_def Let_def)
    qed
  qed
  from infer_risk_level_by_verb [of final_sql] fallback show ?thesis by simp
qed

text \<open>
  A lowercase \<open>delete\<close> that neither stage rewrites, validated without a risk line.
\<close>

theorem risk_fallback_witness:
  "llm_invoke (pipeline_env no_change_note safety_note)
      (Optimizer_prompt (py_or (current_database shop_agent) ''unknown'')
         (take 1500 (schema_context shop_agent)) q_delete) ()
     = (Inr no_change_note, ()) \<and>
   llm_invoke (pipeline_env no_change_note safety_note)
      (Validator_prompt (py_or (current_database shop_agent) ''unknown'')
         (take 1500 (schema_context shop_agent))
         (py_or (extract_sql no_change_note) q_delete)) ()
     = (Inr safety_note, ()) \<and>
   extract_tagged_line safety_note ''RISK_LEVEL'' = None \<and>
   leading_verb q_delete = ''DELETE'' \<and>
   map_sum id rep_risk_level
      (fst (run_optimizer_pipeline (pipeline_env no_change_note safety_note) shop_agent q_delete ()))
     = Inr ''HIGH''"
proof -
  let ?E = "pipeline_env no_change_note safety_note"
  have opt: "llm_invoke ?E (Optimizer_prompt (py_or (current_database shop_agent) ''unknown'')
         (take 1500 (schema_context shop_agent)) q_delete) () = (Inr no_change_note, ())"
    by code_simp
  have val: "llm_invoke ?E (Validator_prompt (py_or (current_database shop_agent) ''unknown'')
         (take 1500 (schema_context shop_agent))
         (py_or (extract_sql no_change_note) q_delete)) () = (Inr safety_note, ())"
    by code_simp
  have final: "q_delete = py_or (extract_sql safety_note) (py_or (extract_sql no_change_note) q_delete)"
    by code_simp
  have tag: "extract_tagged_line safety_note ''RISK_LEVEL'' = None" by code_simp
  then have uncl: "(case extract_tagged_line safety_note ''RISK_LEVEL'' of
          None \<Rightarrow> True
        | Some v \<Rightarrow> upper (strip v) \<notin> {''LOW'', ''MEDIUM'', ''HIGH''})"
    by simp
  have verb: "leading_verb q_delete = ''DELETE''" by code_simp
  from risk_fallback [OF opt val final uncl] verb
  obtain rep where "run_optimizer_pipeline ?E shop_agent q_delete () = (Inr rep, ())"
    "rep_risk_level rep = ''HIGH''"
    by auto
  then have "map_sum id rep_risk_level (fst (run_optimizer_pipeline ?E shop_agent q_delete ())) = Inr ''HIGH''"
    by simp
  with opt val tag verb show ?thesis by simp
qed

subsection \<open>The modified flag\<close>

text \<open>
  Claim C9 (as amended).  For every pipeline run that produces a report, \<open>was_modified\<close>
  is true exactly when the original and the final query differ after trimming leading and
  trailing whitespace and lowercasing; so two queries that differ only in letter case, or
  only in leading and trailing whitespace, give \<open>was_modified = False\<close>.
\<close>

theorem was_modified_trimmed_caseless:
  assumes run: "run_optimizer_pipeline E ag original_sql w = (Inr rep, w')"
  shows "rep_original_sql rep = original_sql \<and>
         (rep_was_modified rep \<longleftrightarrow>
            lower (strip (rep_final_sql rep)) \<noteq> lower (strip original_sql)) \<and>
         (strip (rep_final_sql rep) = strip original_sql \<longrightarrow> \<not> rep_was_modified rep) \<and>
         (lower (strip (rep_final_sql rep)) = lower (strip original_sql) \<longrightarrow> \<not> rep_was_modified rep)"
  using run
  by (auto simp: run_optimizer_pipeline_def invoke_sub_agent_def Let_def
           split: sum.splits if_splits prod.splits)

text \<open>A validator that only changes the letter case of the query.\<close>

theorem was_modified_trimmed_caseless_witness:
  "map_sum id rep_final_sql
      (fst (run_optimizer_pipeline (pipeline_env no_change_note (fence q_plain)) shop_agent q_lowercase ()))
     = Inr q_plain \<and>
   lower (strip q_plain) = lower (strip q_lowercase) \<and>
   map_sum id rep_was_modified
      (fst (run_optimizer_pipeline (pipeline_env no_change_note (fence q_plain)) shop_agent q_lowercase ()))
     = Inr False"
proof -
  let ?run = "run_optimizer_pipeline (pipeline_env no_change_note (fence q_plain)) shop_agent q_lowercase ()"
  have fin: "map_sum id rep_final_sql (fst ?run) = Inr q_plain" by code_simp
  then obtain rep where rep: "fst ?run = Inr rep" "rep_final_sql rep = q_plain"
    by (cases "fst ?run") auto
  then have run: "?run = (Inr rep, snd ?run)" by (simp add: prod_eq_iff)
  have same: "lower (strip q_plain) = lower (strip q_lowercase)" by code_simp
  from was_modified_trimmed_caseless [OF run] rep same have "\<not> rep_was_modified rep" by simp
  with rep fin same show ?thesis by simp
qed

text \<open>
  Whitespace inside the query is not normalised: the original has two blanks where the
  final query has one, the two agree under the whitespace-normalised, case-insensitive
  comparison, and \<open>was_modified\<close> is true.
\<close>

theorem was_modified_trimmed_caseless_counterexample:
  "map_sum id rep_original_sql
      (fst (run_optimizer_pipeline (pipeline_env no_change_note (fence q_plain)) shop_agent q_spaced ()))
     = Inr q_spaced \<and>
   map_sum id rep_final_sql
      (fst (run_optimizer_pipeline (pipeline_env no_change_note (fence q_plain)) shop_agent q_spaced ()))
     = Inr q_plain \<and>
   whitespace_normalized q_spaced = whitespace_normalized q_plain \<and>
   map_sum id rep_was_modified
      (fst (run_optimizer_pipeline (pipeline_env no_change_note (fence q_plain)) shop_agent q_spaced ()))
     = Inr True"
  by code_simp

lemma quick_intents_never_update:
  assumes "handle_quick_intents E ag user_input intent = Some resp"
    and "resp_sql_query resp = Some q"
  shows "leading_verb q \<noteq> ''UPDATE''"
proof -
  have show_db: "leading_verb ''SHOW DATABASES'' \<noteq> ''UPDATE''"
    by (simp add: leading_verb_def isspace_def upper_def upper_char_def)
  have show_tables: "leading_verb (''SHOW TABLES FROM `'' @ d @ ''`'') \<noteq> ''UPDATE''" for d
    by (simp add: leading_verb_def isspace_def upper_def upper_char_def)
  have use_db: "leading_verb (''USE `'' @ d @ ''`'') \<noteq> ''UPDATE''" for d
    by (simp add: leading_verb_def isspace_def upper_def upper_char_def)
  from assms show_db show_tables use_db show ?thesis
    by (auto simp: handle_quick_intents_def default_response_def split: if_splits option.splits)
qed

subsection \<open>Confirmation for destructive queries\<close>

text \<open>
  Claim C10.  \<open>_is_destructive\<close> returns true exactly for the non-empty strings whose
  first whitespace-separated token, uppercased, is \<open>DELETE\<close>, \<open>DROP\<close>, \<open>TRUNCATE\<close> or
  \<open>UPDATE\<close>.  Hence every response of \<open>_chat_inner\<close> whose query has the leading verb
  \<open>UPDATE\<close> requires confirmation, while the risk fallback rates the same query
  \<open>MEDIUM\<close>.
\<close>

theorem update_requires_confirmation:
  "(is_destructive (Some s) = Inr True \<longleftrightarrow>
      s \<noteq> [] \<and> leading_verb s \<in> {''DELETE'', ''DROP'', ''TRUNCATE'', ''UPDATE''}) \<and>
   (chat_inner E ag up fault st user_input w = (Inr resp, w') \<and>
    resp_sql_query resp = Some q \<and> leading_verb q = ''UPDATE'' \<longrightarrow>
      resp_requires_confirmation resp \<and> infer_risk_level q = Inr ''MEDIUM'')"
proof (intro conjI impI)
  show "is_destructive (Some s) = Inr True \<longleftrightarrow>
      s \<noteq> [] \<and> leading_verb s \<in> {''DELETE'', ''DROP'', ''TRUNCATE'', ''UPDATE''}"
    by (rule is_destructive_iff)
next
  assume h: "chat_inner E ag up fault st user_input w = (Inr resp, w') \<and>
    resp_sql_query resp = Some q \<and> leading_verb q = ''UPDATE''"
  then have verb: "leading_verb q = ''UPDATE''" by simp
  from infer_risk_level_by_verb [of q] verb show "infer_risk_level q = Inr ''MEDIUM''" by simp
  from verb have "q \<noteq> []" by (auto simp: leading_verb_def upper_def)
  with is_destructive_iff [of q] verb have destr: "is_destructive (Some q) = Inr True" by simp
  show "resp_requires_confirmation resp"
  proof (cases "handle_quick_intents E ag user_input (classify_intent E user_input)")
    case (Some quick)
    with h have "resp = quick" by (simp add: chat_inner_def Let_def)
    with quick_intents_never_update [OF Some] h show ?thesis by simp
  next
    case None
    with h destr show ?thesis
      by (auto simp: chat_inner_def Let_def default_response_def
               split: if_splits prod.splits sum.splits)
  qed
qed

text \<open>A turn whose oracle answer carries an \<open>UPDATE\<close> statement.\<close>

theorem update_requires_confirmation_witness:
  "map_sum id resp_sql_query
      (fst (chat_inner (scripted_env (chat_script (fence q_update)) [] UPDATE_DATA) shop_agent all_up False
              (store_without_summary 3) ''set the total of order 7 to zero'' ()))
     = Inr (Some q_update) \<and>
   leading_verb q_update = ''UPDATE'' \<and>
   map_sum id resp_requires_confirmation
      (fst (chat_inner (scripted_env (chat_script (fence q_update)) [] UPDATE_DATA) shop_agent all_up False
              (store_without_summary 3) ''set the total of order 7 to zero'' ()))
     = Inr True \<and>
   infer_risk_level q_update = Inr ''MEDIUM''"
proof -
  let ?run = "chat_inner (scripted_env (chat_script (fence q_update)) [] UPDATE_DATA) shop_agent all_up False
              (store_without_summary 3) ''set the total of order 7 to zero'' ()"
  have sql: "map_sum id resp_sql_query (fst ?run) = Inr (Some q_update)" by code_simp
  then obtain resp where resp: "fst ?run = Inr resp" "resp_sql_query resp = Some q_update"
    by (cases "fst ?run") auto
  then have run: "?run = (Inr resp, snd ?run)" by (simp add: prod_eq_iff)
  have verb: "leading_verb q_update = ''UPDATE''" by code_simp
  from update_requires_confirmation [of q_update _ shop_agent all_up False "store_without_summary 3"
      "''set the total of order 7 to zero''" "()" resp "snd ?run" q_update] run resp verb
  have "resp_requires_confirmation resp \<and> infer_risk_level q_update = Inr ''MEDIUM''" by blast
  with resp sql verb show ?thesis by simp
qed


end
